theory Spec2Isabelle
  imports Main "HOL-Library.Word"
begin

unbundle bit_operations_syntax

section \<open>Data model (etf.go)\<close>

text \<open>
  Bytes and the fixed-width unsigned integers of the wire format are machine words.
  A Go \<open>string\<close>, an \<open>Atom\<close> and a \<open>[]byte\<close> are all sequences of octets.
\<close>

type_synonym byte = "8 word"
type_synonym uint16 = "16 word"
type_synonym uint32 = "32 word"
type_synonym uint64 = "64 word"
type_synonym int32 = "32 word"
type_synonym int64 = "64 word"
type_synonym Atom = "byte list"

record Pid =
  Node :: Atom
  Id :: uint32
  Serial :: uint32
  Creation :: byte

record Port =
  PortNode :: Atom
  PortId :: uint32
  PortCreation :: byte

record Ref =
  RefNode :: Atom
  RefCreation :: byte
  RefId :: "uint32 list"

record Export =
  ExpModule :: Atom
  ExpFunction :: Atom
  ExpArity :: byte

text \<open>
  \<open>type Term any\<close>: the dynamic value a decode produces. \<open>TNil\<close> is the nil
  interface value; \<open>TInt\<close> is Go's native \<open>int\<close>, \<open>TInt64\<close> an \<open>int64\<close>,
  \<open>TBigInt\<close> a \<open>*big.Int\<close>; a \<open>float64\<close> is carried as its IEEE 754 bit
  pattern. \<open>TFunction\<close> lists the fields of \<open>Function\<close> in declaration order:
  Arity, Unique, Index, Free, Module, OldIndex, OldUnique, Pid, FreeVars.
\<close>

datatype Term =
    TNil
  | TBool bool
  | TInt int
  | TInt64 int
  | TBigInt int
  | TFloat uint64
  | TAtom Atom
  | TString "byte list"
  | TBytes "byte list"
  | TTuple "Term list"
  | TList "Term list"
  | TPid Pid
  | TPort Port
  | TRef Ref
  | TExport Export
  | TFunction byte "byte list" uint32 uint32 Atom uint32 uint32 Pid "Term list"

text \<open>Erlang external term tags and the format version byte.\<close>

abbreviation (input) ettAtom :: byte where "ettAtom \<equiv> 100"
abbreviation (input) ettAtomUTF8 :: byte where "ettAtomUTF8 \<equiv> 118"
abbreviation (input) ettBinary :: byte where "ettBinary \<equiv> 109"
abbreviation (input) ettBitBinary :: byte where "ettBitBinary \<equiv> 77"
abbreviation (input) ettCachedAtom :: byte where "ettCachedAtom \<equiv> 67"
abbreviation (input) ettCacheRef :: byte where "ettCacheRef \<equiv> 82"
abbreviation (input) ettExport :: byte where "ettExport \<equiv> 113"
abbreviation (input) ettFloat :: byte where "ettFloat \<equiv> 99"
abbreviation (input) ettFun :: byte where "ettFun \<equiv> 117"
abbreviation (input) ettInteger :: byte where "ettInteger \<equiv> 98"
abbreviation (input) ettLargeBig :: byte where "ettLargeBig \<equiv> 111"
abbreviation (input) ettLargeTuple :: byte where "ettLargeTuple \<equiv> 105"
abbreviation (input) ettList :: byte where "ettList \<equiv> 108"
abbreviation (input) ettNewCache :: byte where "ettNewCache \<equiv> 78"
abbreviation (input) ettNewFloat :: byte where "ettNewFloat \<equiv> 70"
abbreviation (input) ettNewFun :: byte where "ettNewFun \<equiv> 112"
abbreviation (input) ettNewRef :: byte where "ettNewRef \<equiv> 114"
abbreviation (input) ettNil :: byte where "ettNil \<equiv> 106"
abbreviation (input) ettPid :: byte where "ettPid \<equiv> 103"
abbreviation (input) ettPort :: byte where "ettPort \<equiv> 102"
abbreviation (input) ettRef :: byte where "ettRef \<equiv> 101"
abbreviation (input) ettSmallAtom :: byte where "ettSmallAtom \<equiv> 115"
abbreviation (input) ettSmallAtomUTF8 :: byte where "ettSmallAtomUTF8 \<equiv> 119"
abbreviation (input) ettSmallBig :: byte where "ettSmallBig \<equiv> 110"
abbreviation (input) ettSmallInteger :: byte where "ettSmallInteger \<equiv> 97"
abbreviation (input) ettSmallTuple :: byte where "ettSmallTuple \<equiv> 104"
abbreviation (input) ettString :: byte where "ettString \<equiv> 107"
abbreviation (input) EtVersion :: byte where "EtVersion \<equiv> 131"

text \<open>
  \<open>Context\<close>: the atom cache table and the current-cache view. A slot is a
  \<open>*string\<close>; \<open>None\<close> is the nil pointer.
\<close>

record Context =
  atomCache :: "Atom option list"
  currentCache :: "Atom option list"

section \<open>Errors, panics and outcomes\<close>

text \<open>
  Every error value the reader and the writer can return. \<open>EOF\<close> and
  \<open>ErrUnexpectedEOF\<close> are the two errors of a stream that ends; \<open>ErrScan\<close> is an
  error reported by the float scanner itself. The size errors of the writer carry the
  offending size, as the formatted message does.
\<close>

datatype error =
    EOF
  | ErrUnexpectedEOF
  | ErrUnknownTerm byte
  | ErrFloatScan
  | ErrScan
  | ErrAtomTooBig nat
  | ErrBigIntSize nat
  | ErrBinarySize nat
  | ErrStringTooBig nat
  | ErrUnknownType

text \<open>A run-time panic aborts the call: no term and no error value are returned.\<close>

datatype panic = TypeAssertion | IndexOutOfRange | NilDereference | SliceBounds

text \<open>
  What a call on the reader does: it returns a value and an error (Go returns both,
  whatever the error is) and leaves the rest of the stream, or it panics.
  \<open>OutOfFuel\<close> is the recursion bound of the model being hit; \<open>Decode\<close> never
  produces it (lemma \<open>Decode_not_OutOfFuel\<close>), and it satisfies the recursive equation of
  the source (theorem \<open>Decode_unfold\<close>).
\<close>

datatype 'a Outcome =
    Return 'a "error option" "byte list"
  | Panic panic
  | OutOfFuel

section \<open>Reading from the stream\<close>

text \<open>
  The stream \<open>d.r\<close> is the sequence of bytes not yet consumed. \<open>ReadByte\<close> yields
  \<open>0\<close> and \<open>EOF\<close> at the end. \<open>ReadFull n\<close> fills a zeroed buffer of \<open>n\<close>
  bytes: it succeeds on \<open>n = 0\<close> without reading; short of \<open>n\<close> bytes it consumes
  what is left and fails with \<open>EOF\<close> (nothing read) or \<open>ErrUnexpectedEOF\<close>, the
  buffer keeping the bytes read.
\<close>

definition ReadByte :: "byte list \<Rightarrow> byte \<times> error option \<times> byte list" where
  "ReadByte s = (case s of [] \<Rightarrow> (0, Some EOF, []) | b # r \<Rightarrow> (b, None, r))"

definition ReadFull :: "nat \<Rightarrow> byte list \<Rightarrow> byte list \<times> error option \<times> byte list" where
  "ReadFull n s =
     (if n \<le> length s then (take n s, None, drop n s)
      else if s = [] then (replicate n 0, Some EOF, [])
      else (s @ replicate (n - length s) 0, Some ErrUnexpectedEOF, []))"

text \<open>\<open>binary.BigEndian\<close>; the readers below always pass a buffer of the exact size.\<close>

fun be_Uint16 :: "byte list \<Rightarrow> uint16" where
  "be_Uint16 (b0 # b1 # _) = ucast b1 OR push_bit 8 (ucast b0)"
| "be_Uint16 _ = 0"

fun be_Uint32 :: "byte list \<Rightarrow> uint32" where
  "be_Uint32 (b0 # b1 # b2 # b3 # _) =
     ucast b3 OR push_bit 8 (ucast b2) OR push_bit 16 (ucast b1) OR push_bit 24 (ucast b0)"
| "be_Uint32 _ = 0"

fun be_Uint64 :: "byte list \<Rightarrow> uint64" where
  "be_Uint64 (b0 # b1 # b2 # b3 # b4 # b5 # b6 # b7 # _) =
     ucast b7 OR push_bit 8 (ucast b6) OR push_bit 16 (ucast b5) OR push_bit 24 (ucast b4) OR
     push_bit 32 (ucast b3) OR push_bit 40 (ucast b2) OR push_bit 48 (ucast b1) OR
     push_bit 56 (ucast b0)"
| "be_Uint64 _ = 0"

definition ruint8 :: "byte list \<Rightarrow> byte \<times> error option \<times> byte list" where
  "ruint8 s = ReadByte s"

definition ruint16 :: "byte list \<Rightarrow> uint16 \<times> error option \<times> byte list" where
  "ruint16 s = (case ReadFull 2 s of (b, err, r) \<Rightarrow> (be_Uint16 b, err, r))"

definition ruint32 :: "byte list \<Rightarrow> uint32 \<times> error option \<times> byte list" where
  "ruint32 s = (case ReadFull 4 s of (b, err, r) \<Rightarrow> (be_Uint32 b, err, r))"

text \<open>\<open>buintN\<close> returns a fresh zeroed buffer of the size read.\<close>

definition buint8 :: "byte list \<Rightarrow> byte list \<times> error option \<times> byte list" where
  "buint8 s = (case ruint8 s of (sz, err, r) \<Rightarrow> (replicate (unat sz) 0, err, r))"

definition buint16 :: "byte list \<Rightarrow> byte list \<times> error option \<times> byte list" where
  "buint16 s = (case ruint16 s of (sz, err, r) \<Rightarrow> (replicate (unat sz) 0, err, r))"

definition buint32 :: "byte list \<Rightarrow> byte list \<times> error option \<times> byte list" where
  "buint32 s = (case ruint32 s of (sz, err, r) \<Rightarrow> (replicate (unat sz) 0, err, r))"

section \<open>The reader (Decoder.Decode)\<close>

text \<open>
  What the host fixes: the width of Go's native \<open>int\<close> (32 or 64 bits), and
  \<open>fmt.Sscanf(string(b), "%f", &f)\<close> of the legacy float payload, which returns the
  number of items scanned, the value stored in \<open>f\<close> and an error.
\<close>

datatype arch = Bits32 | Bits64

record Host =
  intSize :: arch
  Sscanf :: "byte list \<Rightarrow> nat \<times> uint64 \<times> error option"

abbreviation (input) bTrue :: "byte list" where "bTrue \<equiv> [116, 114, 117, 101]"
abbreviation (input) bFalse :: "byte list" where "bFalse \<equiv> [102, 97, 108, 115, 101]"

definition newAtom :: "byte list \<Rightarrow> Term" where
  "newAtom b = (if b = bTrue then TBool True else if b = bFalse then TBool False else TAtom b)"

subsection \<open>Big integers\<close>

text \<open>
  \<open>big.Int.SetBytes\<close> reads a big-endian magnitude; \<open>big.Int.Int64\<close> takes the low
  64 bits of the magnitude as an \<open>int64\<close> and negates it (wrapping) for a negative
  number; \<open>int(v64)\<close> truncates to the native width.
\<close>

definition SetBytes :: "byte list \<Rightarrow> int" where
  "SetBytes b = foldl (\<lambda>acc x. acc * 256 + uint x) 0 b"

definition big_Int64 :: "int \<Rightarrow> int64" where
  "big_Int64 v = (let w = (word_of_int \<bar>v\<bar> :: int64) in if v < 0 then - w else w)"

definition toInt :: "arch \<Rightarrow> int64 \<Rightarrow> int" where
  "toInt a v64 = (case a of Bits64 \<Rightarrow> sint v64 | Bits32 \<Rightarrow> sint (ucast v64 :: int32))"

text \<open>
  \<open>readBigInt\<close> fills the buffer, reverses it (the loop swaps \<open>b[i]\<close> and
  \<open>b[size-i-1]\<close> for \<open>i < size / 2\<close>), builds the number, negates it when the sign
  byte is not zero, and returns it as an \<open>int\<close>, an \<open>int64\<close> or a \<open>*big.Int\<close>.
\<close>

fun swap_loop :: "nat \<Rightarrow> nat \<Rightarrow> byte list \<Rightarrow> byte list" where
  "swap_loop 0 i b = b"
| "swap_loop (Suc k) i b =
     swap_loop k (Suc i) (b[i := b ! (length b - i - 1), length b - i - 1 := b ! i])"

definition readBigInt :: "Host \<Rightarrow> byte list \<Rightarrow> byte list \<Rightarrow> byte \<Rightarrow> Term Outcome" where
  "readBigInt h s b sign =
     (case ReadFull (length b) s of
        (b', Some e, r) \<Rightarrow> Return TNil (Some e) r
      | (b', None, r) \<Rightarrow>
          (let b'' = swap_loop (length b' div 2) 0 b';
               v0 = SetBytes b'';
               v = (if sign \<noteq> 0 then - v0 else v0);
               v64 = big_Int64 v;
               x = toInt (intSize h) v64
           in if v = x then Return (TInt x) None r
              else if v = sint v64 then Return (TInt64 (sint v64)) None r
              else Return (TBigInt v) None r))"

subsection \<open>The cases of the switch that do not recurse\<close>

definition Decode_ettAtom :: "byte list \<Rightarrow> Term Outcome" where
  "Decode_ettAtom s =
     (case buint16 s of
        (b, Some e, r) \<Rightarrow> Return TNil (Some e) r
      | (b, None, r) \<Rightarrow> (case ReadFull (length b) r of (b', err, r') \<Rightarrow> Return (newAtom b') err r'))"

definition Decode_ettSmallAtom :: "byte list \<Rightarrow> Term Outcome" where
  "Decode_ettSmallAtom s =
     (case buint8 s of
        (b, Some e, r) \<Rightarrow> Return TNil (Some e) r
      | (b, None, r) \<Rightarrow> (case ReadFull (length b) r of (b', err, r') \<Rightarrow> Return (newAtom b') err r'))"

definition Decode_ettBinary :: "byte list \<Rightarrow> Term Outcome" where
  "Decode_ettBinary s =
     (case buint32 s of
        (b, Some e, r) \<Rightarrow> Return TNil (Some e) r
      | (b, None, r) \<Rightarrow> (case ReadFull (length b) r of (b', err, r') \<Rightarrow> Return (TBytes b') err r'))"

definition Decode_ettString :: "byte list \<Rightarrow> Term Outcome" where
  "Decode_ettString s =
     (case buint16 s of
        (b, Some e, r) \<Rightarrow> Return TNil (Some e) r
      | (b, None, r) \<Rightarrow> (case ReadFull (length b) r of (b', err, r') \<Rightarrow> Return (TString b') err r'))"

definition Decode_ettFloat :: "Host \<Rightarrow> byte list \<Rightarrow> Term Outcome" where
  "Decode_ettFloat h s =
     (case ReadFull 31 s of
        (b, Some e, r) \<Rightarrow> Return TNil (Some e) r
      | (b, None, r) \<Rightarrow>
          (case Sscanf h b of (n, f, err) \<Rightarrow>
             Return (TFloat f) (if n \<noteq> 1 \<and> err = None then Some ErrFloatScan else err) r))"

definition Decode_ettNewFloat :: "byte list \<Rightarrow> Term Outcome" where
  "Decode_ettNewFloat s =
     (case ReadFull 8 s of
        (b, Some e, r) \<Rightarrow> Return TNil (Some e) r
      | (b, None, r) \<Rightarrow> Return (TFloat (be_Uint64 b)) None r)"

definition Decode_ettSmallInteger :: "byte list \<Rightarrow> Term Outcome" where
  "Decode_ettSmallInteger s = (case ruint8 s of (x, err, r) \<Rightarrow> Return (TInt (uint x)) err r)"

text \<open>\<open>binary.Read\<close> into an \<open>int32\<close> leaves it \<open>0\<close> when the four bytes are not there.\<close>

definition Decode_ettInteger :: "byte list \<Rightarrow> Term Outcome" where
  "Decode_ettInteger s =
     (case ReadFull 4 s of
        (b, Some e, r) \<Rightarrow> Return (TInt 0) (Some e) r
      | (b, None, r) \<Rightarrow> Return (TInt (sint (be_Uint32 b))) None r)"

definition Decode_ettSmallBig :: "Host \<Rightarrow> byte list \<Rightarrow> Term Outcome" where
  "Decode_ettSmallBig h s =
     (case ReadFull 2 s of
        (b, Some e, r) \<Rightarrow> Return TNil (Some e) r
      | (b, None, r) \<Rightarrow> readBigInt h r (replicate (unat (b ! 0)) 0) (b ! 1))"

definition Decode_ettLargeBig :: "Host \<Rightarrow> byte list \<Rightarrow> Term Outcome" where
  "Decode_ettLargeBig h s =
     (case ReadFull 5 s of
        (b, Some e, r) \<Rightarrow> Return TNil (Some e) r
      | (b, None, r) \<Rightarrow> readBigInt h r (replicate (unat (be_Uint32 (take 4 b))) 0) (b ! 4))"

text \<open>
  \<open>ettBitBinary\<close>: the error of the payload read is kept but not checked before the last
  byte is shifted, and \<open>b[len(b)-1]\<close> on an empty buffer panics. The shift count
  \<open>8 - bits\<close> is a \<open>uint8\<close> and wraps.
\<close>

definition Decode_ettBitBinary :: "byte list \<Rightarrow> Term Outcome" where
  "Decode_ettBitBinary s =
     (case ruint32 s of
        (len, Some e, r) \<Rightarrow> Return TNil (Some e) r
      | (len, None, r) \<Rightarrow>
          (case ruint8 r of
             (bits, Some e, r') \<Rightarrow> Return TNil (Some e) r'
           | (bits, None, r') \<Rightarrow>
               (case ReadFull (unat len) r' of (b, err, r'') \<Rightarrow>
                  if length b = 0 then Panic IndexOutOfRange
                  else Return (TBytes (b[length b - 1 :=
                         drop_bit (unat (8 - bits)) (b ! (length b - 1))])) err r'')))"

text \<open>
  \<open>ettCacheRef\<close>: \<open>*d.c.currentCache[b[0]]\<close> indexes the slice and dereferences the
  pointer found there, with no check of either.
\<close>

definition Decode_ettCacheRef :: "Context \<Rightarrow> byte list \<Rightarrow> Term Outcome" where
  "Decode_ettCacheRef c s =
     (case ReadFull 1 s of
        (b, Some e, r) \<Rightarrow> Return TNil (Some e) r
      | (b, None, r) \<Rightarrow>
          (if unat (b ! 0) < length (currentCache c) then
             (case currentCache c ! unat (b ! 0) of
                None \<Rightarrow> Panic NilDereference
              | Some text \<Rightarrow> Return (TAtom text) None r)
           else Panic IndexOutOfRange))"

subsection \<open>The cases that re-enter the reader\<close>

text \<open>
  In the definitions below \<open>dec\<close> stands for the recursive call \<open>d.Decode()\<close> on the
  stream as it is at that point. A panic of a child call aborts the parent as well.

  The element loop \<open>for i := 0; i < cap(xs); i++ { if xs[i], err = d.Decode(); err != nil
  { ... } }\<close>: it returns the elements assigned so far (the term of the call that failed
  is assigned too), the error that ended it, and the stream.
\<close>

fun decode_elems :: "(byte list \<Rightarrow> Term Outcome) \<Rightarrow> nat \<Rightarrow> byte list \<Rightarrow> Term list Outcome" where
  "decode_elems dec 0 s = Return [] None s"
| "decode_elems dec (Suc n) s =
     (case dec s of
        Return t (Some e) r \<Rightarrow> Return [t] (Some e) r
      | Return t None r \<Rightarrow>
          (case decode_elems dec n r of
             Return ts err r' \<Rightarrow> Return (t # ts) err r'
           | Panic p \<Rightarrow> Panic p
           | OutOfFuel \<Rightarrow> OutOfFuel)
      | Panic p \<Rightarrow> Panic p
      | OutOfFuel \<Rightarrow> OutOfFuel)"

text \<open>The loop over the ids of a new reference: \<open>ref.Id[i], err = ruint32(d.r)\<close>.\<close>

fun read_ids :: "nat \<Rightarrow> byte list \<Rightarrow> uint32 list \<times> error option \<times> byte list" where
  "read_ids 0 s = ([], None, s)"
| "read_ids (Suc n) s =
     (case ruint32 s of
        (x, Some e, r) \<Rightarrow> ([x], Some e, r)
      | (x, None, r) \<Rightarrow> (case read_ids n r of (xs, err, r') \<Rightarrow> (x # xs, err, r')))"

text \<open>
  \<open>ettPid\<close>: the node is decoded and nine bytes are read, each error returned at once
  with no term; then \<open>node.(Atom)\<close> is asserted without a check.
\<close>

definition Decode_ettPid :: "(byte list \<Rightarrow> Term Outcome) \<Rightarrow> byte list \<Rightarrow> Term Outcome" where
  "Decode_ettPid dec s =
     (case dec s of
        Return node (Some e) r \<Rightarrow> Return TNil (Some e) r
      | Return node None r \<Rightarrow>
          (case ReadFull 9 r of
             (b, Some e, r') \<Rightarrow> Return TNil (Some e) r'
           | (b, None, r') \<Rightarrow>
               (case node of
                  TAtom a \<Rightarrow>
                    Return (TPid \<lparr>Node = a, Id = be_Uint32 (take 4 b),
                                  Serial = be_Uint32 (take 4 (drop 4 b)), Creation = b ! 8\<rparr>) None r'
                | _ \<Rightarrow> Panic TypeAssertion))
      | Panic p \<Rightarrow> Panic p
      | OutOfFuel \<Rightarrow> OutOfFuel)"

definition Decode_ettNewRef :: "(byte list \<Rightarrow> Term Outcome) \<Rightarrow> byte list \<Rightarrow> Term Outcome" where
  "Decode_ettNewRef dec s =
     (case ruint16 s of
        (nid, Some e, r) \<Rightarrow> Return TNil (Some e) r
      | (nid, None, r) \<Rightarrow>
          (case dec r of
             Return node (Some e) r1 \<Rightarrow> Return TNil (Some e) r1
           | Return node None r1 \<Rightarrow>
               (case ruint8 r1 of
                  (cr, Some e, r2) \<Rightarrow> Return TNil (Some e) r2
                | (cr, None, r2) \<Rightarrow>
                    (case node of
                       TAtom a \<Rightarrow>
                         (case read_ids (unat nid) r2 of
                            (ids, Some e, r3) \<Rightarrow> Return TNil (Some e) r3
                          | (ids, None, r3) \<Rightarrow>
                              Return (TRef \<lparr>RefNode = a, RefCreation = cr, RefId = ids\<rparr>) None r3)
                     | _ \<Rightarrow> Panic TypeAssertion))
           | Panic p \<Rightarrow> Panic p
           | OutOfFuel \<Rightarrow> OutOfFuel))"

text \<open>
  \<open>ettRef\<close>: after the node and the id, \<open>io.ReadFull(d.r, b)\<close> is called with the
  buffer \<open>b\<close> that this case never allocates; it reads nothing and succeeds, and
  \<open>b[0]\<close> then panics.
\<close>

definition Decode_ettRef :: "(byte list \<Rightarrow> Term Outcome) \<Rightarrow> byte list \<Rightarrow> Term Outcome" where
  "Decode_ettRef dec s =
     (case dec s of
        Return node (Some e) r \<Rightarrow> Return TNil (Some e) r
      | Return node None r \<Rightarrow>
          (case node of
             TAtom a \<Rightarrow>
               (case ruint32 r of
                  (x, Some e, r1) \<Rightarrow> Return TNil (Some e) r1
                | (x, None, r1) \<Rightarrow>
                    (case ReadFull 0 r1 of
                       (b, Some e, r2) \<Rightarrow> Return TNil (Some e) r2
                     | (b, None, r2) \<Rightarrow>
                         (if 0 < length b then
                            Return (TRef \<lparr>RefNode = a, RefCreation = b ! 0, RefId = [x]\<rparr>) None r2
                          else Panic IndexOutOfRange)))
           | _ \<Rightarrow> Panic TypeAssertion)
      | Panic p \<Rightarrow> Panic p
      | OutOfFuel \<Rightarrow> OutOfFuel)"

text \<open>
  The tuples: an error of an element ends the loop with \<open>break\<close>, and the statement after
  the loop, \<open>term = tuple\<close>, still runs: the tuple is returned beside the error, its
  remaining slots nil.
\<close>

definition Decode_tuple :: "(byte list \<Rightarrow> Term Outcome) \<Rightarrow> nat \<Rightarrow> byte list \<Rightarrow> Term Outcome" where
  "Decode_tuple dec arity s =
     (case decode_elems dec arity s of
        Return ts err r \<Rightarrow> Return (TTuple (ts @ replicate (arity - length ts) TNil)) err r
      | Panic p \<Rightarrow> Panic p
      | OutOfFuel \<Rightarrow> OutOfFuel)"

definition Decode_ettSmallTuple :: "(byte list \<Rightarrow> Term Outcome) \<Rightarrow> byte list \<Rightarrow> Term Outcome" where
  "Decode_ettSmallTuple dec s =
     (case ruint8 s of
        (arity, Some e, r) \<Rightarrow> Return TNil (Some e) r
      | (arity, None, r) \<Rightarrow> Decode_tuple dec (unat arity) r)"

definition Decode_ettLargeTuple :: "(byte list \<Rightarrow> Term Outcome) \<Rightarrow> byte list \<Rightarrow> Term Outcome" where
  "Decode_ettLargeTuple dec s =
     (case ruint32 s of
        (arity, Some e, r) \<Rightarrow> Return TNil (Some e) r
      | (arity, None, r) \<Rightarrow> Decode_tuple dec (unat arity) r)"

text \<open>
  \<open>ettList\<close>: \<open>n + 1\<close> elements are decoded (\<open>n + 1\<close> is computed in \<open>uint32\<close>), an
  error returning at once with no term. Then \<open>switch list[n].(type) { case List: list =
  list[:n] }\<close> drops the last element when its dynamic type is \<open>List\<close>.
\<close>

definition Decode_ettList :: "(byte list \<Rightarrow> Term Outcome) \<Rightarrow> byte list \<Rightarrow> Term Outcome" where
  "Decode_ettList dec s =
     (case ruint32 s of
        (n, Some e, r) \<Rightarrow> Return TNil (Some e) r
      | (n, None, r) \<Rightarrow>
          (case decode_elems dec (unat (n + 1)) r of
             Return list (Some e) r' \<Rightarrow> Return TNil (Some e) r'
           | Return list None r' \<Rightarrow>
               (if unat n < length list then
                  (case list ! unat n of
                     TList xs \<Rightarrow> Return (TList (take (unat n) list)) None r'
                   | _ \<Rightarrow> Return (TList list) None r')
                else Panic IndexOutOfRange)
           | Panic p \<Rightarrow> Panic p
           | OutOfFuel \<Rightarrow> OutOfFuel))"

definition Decode_ettExport :: "(byte list \<Rightarrow> Term Outcome) \<Rightarrow> byte list \<Rightarrow> Term Outcome" where
  "Decode_ettExport dec s =
     (case dec s of
        Return m (Some e) r \<Rightarrow> Return TNil (Some e) r
      | Return m None r \<Rightarrow>
          (case dec r of
             Return f (Some e) r1 \<Rightarrow> Return TNil (Some e) r1
           | Return f None r1 \<Rightarrow>
               (case ruint8 r1 of
                  (a, Some e, r2) \<Rightarrow> Return TNil (Some e) r2
                | (a, None, r2) \<Rightarrow>
                    (case (m, f) of
                       (TAtom ma, TAtom fa) \<Rightarrow>
                         Return (TExport \<lparr>ExpModule = ma, ExpFunction = fa, ExpArity = a\<rparr>) None r2
                     | _ \<Rightarrow> Panic TypeAssertion))
           | Panic p \<Rightarrow> Panic p
           | OutOfFuel \<Rightarrow> OutOfFuel)
      | Panic p \<Rightarrow> Panic p
      | OutOfFuel \<Rightarrow> OutOfFuel)"

text \<open>
  The two function tags discard the error of every header read and of the four child
  decodes (\<open>m, _ := d.Decode()\<close>); only the error of the free-variable loop is kept.
  After the loop the children are asserted without a check: \<open>m.(Atom)\<close>,
  \<open>uint32(oldi.(int))\<close>, \<open>uint32(oldu.(int))\<close>, \<open>pid.(Pid)\<close>, in this order.
  \<open>fun_fields\<close> is that tail: the loop, the assertions and the term.
\<close>

definition fun_fields ::
  "(byte list \<Rightarrow> Term Outcome) \<Rightarrow> byte \<Rightarrow> byte list \<Rightarrow> uint32 \<Rightarrow> uint32 \<Rightarrow>
   Term \<Rightarrow> Term \<Rightarrow> Term \<Rightarrow> Term \<Rightarrow> byte list \<Rightarrow> Term Outcome" where
  "fun_fields dec arity uniq index free m oldi oldu pid s =
     (case decode_elems dec (unat free) s of
        Return vs err r \<Rightarrow>
          (case (m, oldi, oldu, pid) of
             (TAtom ma, TInt oi, TInt ou, TPid p) \<Rightarrow>
               Return (TFunction arity uniq index free ma (word_of_int oi) (word_of_int ou) p
                         (vs @ replicate (unat free - length vs) TNil)) err r
           | _ \<Rightarrow> Panic TypeAssertion)
      | Panic p \<Rightarrow> Panic p
      | OutOfFuel \<Rightarrow> OutOfFuel)"

text \<open>Four child decodes in a row, the error of each dropped.\<close>

definition decode4 ::
  "(byte list \<Rightarrow> Term Outcome) \<Rightarrow> byte list \<Rightarrow> (Term \<times> Term \<times> Term \<times> Term) Outcome" where
  "decode4 dec s =
     (case dec s of
        Return t1 e1 r1 \<Rightarrow>
          (case dec r1 of
             Return t2 e2 r2 \<Rightarrow>
               (case dec r2 of
                  Return t3 e3 r3 \<Rightarrow>
                    (case dec r3 of
                       Return t4 e4 r4 \<Rightarrow> Return (t1, t2, t3, t4) None r4
                     | Panic p \<Rightarrow> Panic p
                     | OutOfFuel \<Rightarrow> OutOfFuel)
                | Panic p \<Rightarrow> Panic p
                | OutOfFuel \<Rightarrow> OutOfFuel)
           | Panic p \<Rightarrow> Panic p
           | OutOfFuel \<Rightarrow> OutOfFuel)
      | Panic p \<Rightarrow> Panic p
      | OutOfFuel \<Rightarrow> OutOfFuel)"

definition Decode_ettNewFun :: "(byte list \<Rightarrow> Term Outcome) \<Rightarrow> byte list \<Rightarrow> Term Outcome" where
  "Decode_ettNewFun dec s =
     (case ruint32 s of (sz, e0, r0) \<Rightarrow>
     (case ruint8 r0 of (arity, e1, r1) \<Rightarrow>
     (case ReadFull 16 r1 of (uniq, e2, r2) \<Rightarrow>
     (case ruint32 r2 of (index, e3, r3) \<Rightarrow>
     (case ruint32 r3 of (free, e4, r4) \<Rightarrow>
     (case decode4 dec r4 of
        Return (m, oldi, oldu, pid) e r5 \<Rightarrow> fun_fields dec arity uniq index free m oldi oldu pid r5
      | Panic p \<Rightarrow> Panic p
      | OutOfFuel \<Rightarrow> OutOfFuel))))))"

definition Decode_ettFun :: "(byte list \<Rightarrow> Term Outcome) \<Rightarrow> byte list \<Rightarrow> Term Outcome" where
  "Decode_ettFun dec s =
     (case ruint32 s of (free, e0, r0) \<Rightarrow>
     (case decode4 dec r0 of
        Return (pid, m, oldi, oldu) e r1 \<Rightarrow>
          fun_fields dec 0 (replicate 16 0) 0 free m oldi oldu pid r1
      | Panic p \<Rightarrow> Panic p
      | OutOfFuel \<Rightarrow> OutOfFuel))"

definition Decode_ettPort :: "(byte list \<Rightarrow> Term Outcome) \<Rightarrow> byte list \<Rightarrow> Term Outcome" where
  "Decode_ettPort dec s =
     (case dec s of
        Return a e r \<Rightarrow>
          (case a of
             TAtom node \<Rightarrow>
               (case ruint32 r of (i, e1, r1) \<Rightarrow>
               (case ruint8 r1 of (cr, err, r2) \<Rightarrow>
                  Return (TPort \<lparr>PortNode = node, PortId = i, PortCreation = cr\<rparr>) err r2))
           | _ \<Rightarrow> Panic TypeAssertion)
      | Panic p \<Rightarrow> Panic p
      | OutOfFuel \<Rightarrow> OutOfFuel)"

subsection \<open>The dispatch\<close>

text \<open>
  One call of \<open>Decode\<close>: read the tag, then the switch, in the order of the source.
  The version byte re-enters the reader.
\<close>

definition Decode_step ::
  "Host \<Rightarrow> Context \<Rightarrow> (byte list \<Rightarrow> Term Outcome) \<Rightarrow> byte list \<Rightarrow> Term Outcome" where
  "Decode_step h c dec s =
     (case ruint8 s of
        (etype, Some e, r) \<Rightarrow> Return TNil (Some e) r
      | (etype, None, r) \<Rightarrow>
          if etype = EtVersion then dec r
          else if etype = ettAtom \<or> etype = ettAtomUTF8 then Decode_ettAtom r
          else if etype = ettSmallAtom \<or> etype = ettSmallAtomUTF8 then Decode_ettSmallAtom r
          else if etype = ettBinary then Decode_ettBinary r
          else if etype = ettString then Decode_ettString r
          else if etype = ettFloat then Decode_ettFloat h r
          else if etype = ettNewFloat then Decode_ettNewFloat r
          else if etype = ettSmallInteger then Decode_ettSmallInteger r
          else if etype = ettInteger then Decode_ettInteger r
          else if etype = ettSmallBig then Decode_ettSmallBig h r
          else if etype = ettLargeBig then Decode_ettLargeBig h r
          else if etype = ettNil then Return (TList []) None r
          else if etype = ettPid then Decode_ettPid dec r
          else if etype = ettNewRef then Decode_ettNewRef dec r
          else if etype = ettRef then Decode_ettRef dec r
          else if etype = ettSmallTuple then Decode_ettSmallTuple dec r
          else if etype = ettLargeTuple then Decode_ettLargeTuple dec r
          else if etype = ettList then Decode_ettList dec r
          else if etype = ettBitBinary then Decode_ettBitBinary r
          else if etype = ettExport then Decode_ettExport dec r
          else if etype = ettNewFun then Decode_ettNewFun dec r
          else if etype = ettFun then Decode_ettFun dec r
          else if etype = ettPort then Decode_ettPort dec r
          else if etype = ettCacheRef then Decode_ettCacheRef c r
          else Return TNil (Some (ErrUnknownTerm etype)) r)"

text \<open>
  The recursion is bounded by its depth. Every nested call has consumed at least the tag
  byte of its parent, so a depth of one more than the length of the stream is never
  reached: \<open>Decode\<close> starts with that much.
\<close>

primrec Decode_fuel :: "nat \<Rightarrow> Host \<Rightarrow> Context \<Rightarrow> byte list \<Rightarrow> Term Outcome" where
  "Decode_fuel 0 h c s = OutOfFuel"
| "Decode_fuel (Suc k) h c s = Decode_step h c (Decode_fuel k h c) s"

definition Decode :: "Host \<Rightarrow> Context \<Rightarrow> byte list \<Rightarrow> Term Outcome" where
  "Decode h c s = Decode_fuel (Suc (length s)) h c s"

section \<open>The writer (Encoder)\<close>

text \<open>
  The sink \<open>e.w\<close> is a buffer: a write appends and never fails. A writer function
  yields the bytes it appended and its error. \<open>then_write\<close> is the sequencing
  \<open>if err == nil { ... }\<close>: what follows an error is not written.
\<close>

type_synonym written = "byte list \<times> error option"

definition Write :: "byte list \<Rightarrow> written" where
  "Write bs = (bs, None)"

definition then_write :: "written \<Rightarrow> written \<Rightarrow> written" where
  "then_write w1 w2 =
     (case w1 of
        (b1, Some e) \<Rightarrow> (b1, Some e)
      | (b1, None) \<Rightarrow> (case w2 of (b2, err) \<Rightarrow> (b1 @ b2, err)))"

text \<open>
  \<open>big.Int.Bytes\<close>: the magnitude as a big-endian byte sequence with no leading zero
  byte (empty for zero). \<open>reverse\<close> is \<open>slices.Reverse\<close>.
\<close>

fun Bytes :: "nat \<Rightarrow> byte list" where
  "Bytes n = (if n = 0 then [] else Bytes (n div 256) @ [of_nat (n mod 256)])"

declare Bytes.simps [simp del]

definition reverse :: "byte list \<Rightarrow> byte list" where
  "reverse b = rev b"

definition writeAtom :: "Atom \<Rightarrow> written" where
  "writeAtom atom =
     (let sz = length atom in
      if sz \<le> 255 then
        then_write (Write [ettSmallAtom, of_nat sz]) (Write atom)
      else if sz \<le> 65535 then
        then_write (Write [ettAtom, of_nat (drop_bit 8 sz), of_nat sz]) (Write atom)
      else ([], Some (ErrAtomTooBig sz)))"

definition writeBigInt :: "int \<Rightarrow> written" where
  "writeBigInt x =
     (let sign = (if x < 0 then 1 else 0 :: byte);
          bytes = reverse (Bytes (nat \<bar>x\<bar>));
          sz = length bytes;
          hdr = (if sz \<le> 255 then Write [ettSmallBig, of_nat sz, sign]
                 else if sz \<le> 4294967295 then
                   Write [ettLargeBig, of_nat (drop_bit 24 sz), of_nat (drop_bit 16 sz),
                          of_nat (drop_bit 8 sz), of_nat sz, sign]
                 else ([], Some (ErrBigIntSize sz)))
      in then_write hdr (Write bytes))"

definition writeBinary :: "byte list \<Rightarrow> written" where
  "writeBinary bytes =
     (let sz = length bytes in
      if sz \<le> 4294967295 then
        then_write (Write [ettBinary, of_nat (drop_bit 24 sz), of_nat (drop_bit 16 sz),
                           of_nat (drop_bit 8 sz), of_nat sz]) (Write bytes)
      else ([], Some (ErrBinarySize sz)))"

definition writeBool :: "bool \<Rightarrow> written" where
  "writeBool b =
     (if b then Write [ettSmallAtom, 4, 116, 114, 117, 101]
      else Write [ettSmallAtom, 5, 102, 97, 108, 115, 101])"

definition writeFloat :: "uint64 \<Rightarrow> written" where
  "writeFloat fb =
     then_write (Write [ettNewFloat])
       (Write [ucast (drop_bit 56 fb), ucast (drop_bit 48 fb), ucast (drop_bit 40 fb),
               ucast (drop_bit 32 fb), ucast (drop_bit 24 fb), ucast (drop_bit 16 fb),
               ucast (drop_bit 8 fb), ucast fb])"

text \<open>
  \<open>writeInt\<close> takes an \<open>int64\<close>; in the second case it is narrowed to \<open>int32\<close> and
  shifted arithmetically.
\<close>

definition writeInt :: "int64 \<Rightarrow> written" where
  "writeInt x =
     (if 0 \<le> sint x \<and> sint x \<le> 255 then Write [ettSmallInteger, ucast x]
      else if - 2147483648 \<le> sint x \<and> sint x \<le> 2147483647 then
        (let x32 = (ucast x :: int32) in
         Write [ettInteger, ucast (signed_drop_bit 24 x32), ucast (signed_drop_bit 16 x32),
                ucast (signed_drop_bit 8 x32), ucast x32])
      else writeBigInt (sint x))"

definition writeUint :: "uint64 \<Rightarrow> written" where
  "writeUint x =
     (if x \<le> 255 then Write [ettSmallInteger, ucast x]
      else if x \<le> 2147483647 then
        Write [ettInteger, ucast (drop_bit 24 x), ucast (drop_bit 16 x), ucast (drop_bit 8 x),
               ucast x]
      else writeBigInt (uint x))"

text \<open>
  \<open>writePid\<close>: the tag, the node, then nine bytes of which the first two are always
  zero and the next two the low sixteen bits of \<open>Id\<close>.
\<close>

definition writePid :: "Pid \<Rightarrow> written" where
  "writePid p =
     then_write (Write [ettPid])
       (then_write (writeAtom (Node p))
          (Write [0, 0, ucast (drop_bit 8 (Id p)), ucast (Id p),
                  ucast (drop_bit 24 (Serial p)), ucast (drop_bit 16 (Serial p)),
                  ucast (drop_bit 8 (Serial p)), ucast (Serial p),
                  Creation p]))"

definition writeString :: "byte list \<Rightarrow> written" where
  "writeString s =
     (let sz = length s in
      if sz \<le> 65535 then
        then_write (Write [ettString, of_nat (drop_bit 8 sz), of_nat sz]) (Write s)
      else ([], Some (ErrStringTooBig sz)))"

fun write_ids :: "uint32 list \<Rightarrow> written" where
  "write_ids [] = ([], None)"
| "write_ids (v # vs) =
     then_write (Write [ucast (drop_bit 24 v), ucast (drop_bit 16 v), ucast (drop_bit 8 v), ucast v])
       (write_ids vs)"

definition writeRef :: "Ref \<Rightarrow> written" where
  "writeRef ref =
     (let n = length (RefId ref) in
      then_write (Write [ettNewRef, of_nat (drop_bit 8 n), of_nat n])
        (then_write (writeAtom (RefNode ref))
           (then_write (Write [RefCreation ref]) (write_ids (RefId ref)))))"

subsection \<open>EncodeTerm\<close>

text \<open>
  What \<open>EncodeTerm\<close> can be given, by the branch of its type switch: a \<open>bool\<close>;
  a signed integer of any width (read through \<open>reflect\<close> as \<open>int64\<close>); an unsigned
  one (as \<open>uint64\<close>); a non-nil \<open>*big.Int\<close>; a \<open>string\<close>; a \<open>[]byte\<close>; a float
  (a \<open>float32\<close> is widened first; the value is carried as the bits of the
  \<open>float64\<close>); an \<open>Atom\<close>, a \<open>Pid\<close>, a \<open>Tuple\<close>, a \<open>Ref\<close>; and, by
  \<open>reflect.Kind\<close>, a struct (its fields in declaration order, each marked whether it is
  exported and not embedded), an array or slice, a pointer, or a value of any other kind
  (not the nil interface).
\<close>

datatype Value =
    VBool bool
  | VInt int64
  | VUint uint64
  | VBigInt int
  | VString "byte list"
  | VBytes "byte list"
  | VFloat uint64
  | VAtom Atom
  | VPid Pid
  | VTuple "Value list"
  | VRef Ref
  | VStruct "(bool \<times> Value) list"
  | VSlice "Value list"
  | VPtr
  | VOther

definition tuple_header :: "nat \<Rightarrow> byte list" where
  "tuple_header n =
     (if n \<le> 255 then [ettSmallTuple, of_nat n]
      else [ettLargeTuple, of_nat (drop_bit 24 n), of_nat (drop_bit 16 n), of_nat (drop_bit 8 n),
            of_nat n])"

text \<open>
  \<open>writeTuple\<close>, \<open>writeList\<close> and \<open>writeRecord\<close> write their header and then each
  element with \<open>EncodeTerm\<close>, stopping at the first error; \<open>writeList\<close> ends with the
  nil tag. \<open>writeRecord\<close> keeps the exported fields that are not embedded. A pointer
  is passed on as \<open>rv.Elem()\<close>, a \<open>reflect.Value\<close>: a struct none of whose fields is
  exported, which \<open>writeRecord\<close> writes as the empty tuple.
\<close>

fun EncodeTerm :: "Value \<Rightarrow> written"
  and writeTuple :: "Value list \<Rightarrow> written"
  and writeList :: "Value list \<Rightarrow> written"
  and writeRecord :: "(bool \<times> Value) list \<Rightarrow> written"
  and encode_each :: "Value list \<Rightarrow> written"
  and encode_fields :: "(bool \<times> Value) list \<Rightarrow> written" where
  "EncodeTerm (VBool v) = writeBool v"
| "EncodeTerm (VInt v) = writeInt v"
| "EncodeTerm (VUint v) = writeUint v"
| "EncodeTerm (VBigInt v) = writeBigInt v"
| "EncodeTerm (VString v) = writeString v"
| "EncodeTerm (VBytes v) = writeBinary v"
| "EncodeTerm (VFloat v) = writeFloat v"
| "EncodeTerm (VAtom v) = writeAtom v"
| "EncodeTerm (VPid v) = writePid v"
| "EncodeTerm (VTuple v) = writeTuple v"
| "EncodeTerm (VRef v) = writeRef v"
| "EncodeTerm (VStruct fs) = writeRecord fs"
| "EncodeTerm (VSlice vs) = writeList vs"
| "EncodeTerm VPtr = Write [ettSmallTuple, 0]"
| "EncodeTerm VOther = ([], Some ErrUnknownType)"
| "writeTuple tuple = then_write (Write (tuple_header (length tuple))) (encode_each tuple)"
| "writeList l =
     then_write
       (Write [ettList, of_nat (drop_bit 24 (length l)), of_nat (drop_bit 16 (length l)),
               of_nat (drop_bit 8 (length l)), of_nat (length l)])
       (then_write (encode_each l) (Write [ettNil]))"
| "writeRecord fs =
     then_write (Write (tuple_header (length (filter fst fs)))) (encode_fields fs)"
| "encode_each [] = ([], None)"
| "encode_each (v # vs) = then_write (EncodeTerm v) (encode_each vs)"
| "encode_fields [] = ([], None)"
| "encode_fields ((keep, v) # fs) =
     (if keep then then_write (EncodeTerm v) (encode_fields fs) else encode_fields fs)"

definition Encode :: "Value \<Rightarrow> written" where
  "Encode term = then_write (Write [EtVersion]) (EncodeTerm term)"

section \<open>The package write (write/write.go)\<close>

text \<open>
  The older writer functions, one per type, on a sink passed in. Their tag constants
  (\<open>ErlTypeSmallAtom\<close>, ...) are declared in another package; they are the tags of the
  catalog above. \<open>Bool\<close> goes
  through \<open>Atom\<close>; \<open>Int64\<close> tests \<open>int64(int32(x)) == x\<close> and shifts the
  \<open>int64\<close> itself; \<open>BigInt\<close> tests \<open>int(uint32(size)) == size\<close>, which is always
  true where \<open>int\<close> has 32 bits.
\<close>

definition write_reverse :: "byte list \<Rightarrow> byte list" where
  "write_reverse b = map (\<lambda>i. b ! (length b - i - 1)) [0 ..< length b]"

definition write_Atom :: "Atom \<Rightarrow> written" where
  "write_Atom atom =
     (let sz = length atom in
      if sz \<le> 255 then
        then_write (Write [ettSmallAtom, of_nat sz]) (Write atom)
      else if sz \<le> 65535 then
        then_write (Write [ettAtom, of_nat (drop_bit 8 sz), of_nat sz]) (Write atom)
      else ([], Some (ErrAtomTooBig sz)))"

definition write_BigInt :: "arch \<Rightarrow> int \<Rightarrow> written" where
  "write_BigInt a x =
     (let sign = (if x < 0 then 1 else 0 :: byte);
          bytes = write_reverse (Bytes (nat \<bar>x\<bar>));
          sz = length bytes
      in if sz \<le> 255 then
           then_write (Write [ettSmallBig, of_nat sz, sign]) (Write bytes)
         else if a = Bits32 \<or> sz \<le> 4294967295 then
           then_write (Write [ettLargeBig, of_nat (drop_bit 24 sz), of_nat (drop_bit 16 sz),
                              of_nat (drop_bit 8 sz), of_nat sz, sign]) (Write bytes)
         else ([], Some (ErrBigIntSize sz)))"

definition write_Bool :: "bool \<Rightarrow> written" where
  "write_Bool b = (if b then write_Atom bTrue else write_Atom bFalse)"

definition write_Int64 :: "arch \<Rightarrow> int64 \<Rightarrow> written" where
  "write_Int64 a x =
     (if 0 \<le> sint x \<and> sint x \<le> 255 then Write [ettSmallInteger, ucast x]
      else if (scast (ucast x :: int32) :: int64) = x then
        Write [ettInteger, ucast (signed_drop_bit 24 x), ucast (signed_drop_bit 16 x),
               ucast (signed_drop_bit 8 x), ucast x]
      else write_BigInt a (sint x))"

section \<open>The typed decode bridge\<close>

text \<open>
  \<open>Decode(b, ptr)\<close> unmarshals the bytes \<open>b\<close> into the variable \<open>ptr\<close> points
  to, dispatching on the kind of that variable. The target is given by its type. A
  struct lists the types of its fields, all of them settable; \<open>TyBigIntPtr\<close> is
  \<open>*big.Int\<close>, \<open>TyBytes\<close> is \<open>[]byte\<close>, \<open>TyByteArray n\<close> an array of \<open>n\<close>
  elements of kind \<open>Uint8\<close>; \<open>TyPtr\<close>, \<open>TySlice\<close>, \<open>TyArray\<close> are the other
  pointers, slices and arrays, \<open>TyString\<close> a type of kind \<open>String\<close> other than
  \<open>Atom\<close>, \<open>TyOther\<close> any other kind.
\<close>

datatype int_kind = KInt | KInt8 | KInt16 | KInt32 | KInt64

datatype uint_kind = KUint | KUint8 | KUint16 | KUint32 | KUint64

datatype GoType =
    TyBool
  | TyInt int_kind
  | TyUint uint_kind
  | TyFloat32
  | TyFloat64
  | TyAtom
  | TyString
  | TyStruct "GoType list"
  | TyBigIntPtr
  | TyPtr
  | TyBytes
  | TySlice
  | TyByteArray nat
  | TyArray
  | TyOther

text \<open>The value an \<open>OverflowError\<close> carries, and the errors of the bridge.\<close>

datatype ovalue = OInt int64 | OUint uint64 | OFloat uint64 | OBytes "byte list"

datatype structural = InvalidTupleLength nat | DifferentNumberOfFields nat int

datatype decode_error =
    OverflowError ovalue GoType
  | TypeError GoType
  | VersionError byte
  | StructuralError structural
  | SyntaxError string
  | ParseError

text \<open>
  What a call stores into its target: nothing, a scalar, or for a struct what was stored
  into each field.
\<close>

datatype Stored =
    Untouched
  | StoreBool bool
  | StoreInt int64
  | StoreUint uint64
  | StoreFloat uint64
  | StoreAtom Atom
  | StoreString "byte list"
  | StoreBigInt int
  | StoreBytes "byte list"
  | StoreArray "byte list"
  | StoreFields "Stored list"

datatype 'a Bridge = Returned nat "decode_error option" 'a | Panicked panic

text \<open>
  The term parsers \<open>parseBool\<close>, \<open>parseInt64\<close>, ... are functions of the package that
  \<open>decode\<close> calls; each takes the bytes and returns a result, the number of bytes it
  consumed and an error. They are parameters here, with \<open>reflect\<close>'s \<open>OverflowFloat\<close>
  for a \<open>float32\<close> target.
\<close>

record Parsers =
  parseBool :: "byte list \<Rightarrow> bool \<times> nat \<times> decode_error option"
  parseInt64 :: "byte list \<Rightarrow> int64 \<times> nat \<times> decode_error option"
  parseUint64 :: "byte list \<Rightarrow> uint64 \<times> nat \<times> decode_error option"
  parseFloat64 :: "byte list \<Rightarrow> uint64 \<times> nat \<times> decode_error option"
  parseAtom :: "byte list \<Rightarrow> Atom \<times> nat \<times> decode_error option"
  parseString :: "byte list \<Rightarrow> byte list \<times> nat \<times> decode_error option"
  parseBigInt :: "byte list \<Rightarrow> int \<times> nat \<times> decode_error option"
  parseBinary :: "byte list \<Rightarrow> byte list \<times> nat \<times> decode_error option"
  OverflowFloat32 :: "uint64 \<Rightarrow> bool"

text \<open>
  \<open>reflect.Value.OverflowInt\<close> and \<open>OverflowUint\<close>: with \<open>bitSize\<close> the size of the
  target type in bits, \<open>trunc := (x << (64 - bitSize)) >> (64 - bitSize); return x !=
  trunc\<close>, the right shift arithmetic for \<open>int64\<close> and logical for \<open>uint64\<close>.
\<close>

definition arch_bits :: "arch \<Rightarrow> nat" where
  "arch_bits a = (case a of Bits32 \<Rightarrow> 32 | Bits64 \<Rightarrow> 64)"

definition int_bits :: "arch \<Rightarrow> int_kind \<Rightarrow> nat" where
  "int_bits a k =
     (case k of KInt \<Rightarrow> arch_bits a | KInt8 \<Rightarrow> 8 | KInt16 \<Rightarrow> 16 | KInt32 \<Rightarrow> 32 | KInt64 \<Rightarrow> 64)"

definition uint_bits :: "arch \<Rightarrow> uint_kind \<Rightarrow> nat" where
  "uint_bits a k =
     (case k of KUint \<Rightarrow> arch_bits a | KUint8 \<Rightarrow> 8 | KUint16 \<Rightarrow> 16 | KUint32 \<Rightarrow> 32
      | KUint64 \<Rightarrow> 64)"

definition OverflowInt :: "nat \<Rightarrow> int64 \<Rightarrow> bool" where
  "OverflowInt bitSize x = (x \<noteq> signed_drop_bit (64 - bitSize) (push_bit (64 - bitSize) x))"

definition OverflowUint :: "nat \<Rightarrow> uint64 \<Rightarrow> bool" where
  "OverflowUint bitSize x = (x \<noteq> drop_bit (64 - bitSize) (push_bit (64 - bitSize) x))"

abbreviation (input) erlSmallTuple :: byte where "erlSmallTuple \<equiv> 104"
abbreviation (input) erlLargeTuple :: byte where "erlLargeTuple \<equiv> 105"
abbreviation (input) erlFormatVersion :: byte where "erlFormatVersion \<equiv> 131"

text \<open>
  \<open>decode\<close>, with \<open>decodeStruct\<close> and its loop over the fields. \<open>b[0]\<close> on empty
  input and \<open>b[size:]\<close> past the end panic. The loop stops at the first error; what the
  fields before it received stays stored. The arity of a large tuple is
  \<open>int(be.Uint32(b[1:5]))\<close>, negative from \<open>2^31\<close> on where \<open>int\<close> has 32 bits.
\<close>

definition tuple_arity :: "arch \<Rightarrow> uint32 \<Rightarrow> int" where
  "tuple_arity a n = (case a of Bits32 \<Rightarrow> sint n | Bits64 \<Rightarrow> uint n)"

fun decode :: "Parsers \<Rightarrow> arch \<Rightarrow> byte list \<Rightarrow> GoType \<Rightarrow> Stored Bridge"
  and decodeStruct :: "Parsers \<Rightarrow> arch \<Rightarrow> byte list \<Rightarrow> GoType list \<Rightarrow> Stored Bridge"
  and decode_fields ::
    "Parsers \<Rightarrow> arch \<Rightarrow> byte list \<Rightarrow> nat \<Rightarrow> GoType list \<Rightarrow> Stored list Bridge" where
  "decode P a b TyBool =
     (case parseBool P b of
        (result, n, None) \<Rightarrow> Returned n None (StoreBool result)
      | (result, n, Some e) \<Rightarrow> Returned n (Some e) Untouched)"
| "decode P a b (TyInt k) =
     (case parseInt64 P b of
        (result, n, None) \<Rightarrow>
          if OverflowInt (int_bits a k) result
          then Returned n (Some (OverflowError (OInt result) (TyInt k))) Untouched
          else Returned n None (StoreInt result)
      | (result, n, Some e) \<Rightarrow> Returned n (Some e) Untouched)"
| "decode P a b (TyUint k) =
     (case parseUint64 P b of
        (result, n, None) \<Rightarrow>
          if OverflowUint (uint_bits a k) result
          then Returned n (Some (OverflowError (OUint result) (TyUint k))) Untouched
          else Returned n None (StoreUint result)
      | (result, n, Some e) \<Rightarrow> Returned n (Some e) Untouched)"
| "decode P a b TyFloat32 =
     (case parseFloat64 P b of
        (result, n, None) \<Rightarrow>
          if OverflowFloat32 P result
          then Returned n (Some (OverflowError (OFloat result) TyFloat32)) Untouched
          else Returned n None (StoreFloat result)
      | (result, n, Some e) \<Rightarrow> Returned n (Some e) Untouched)"
| "decode P a b TyFloat64 =
     (case parseFloat64 P b of
        (result, n, None) \<Rightarrow> Returned n None (StoreFloat result)
      | (result, n, Some e) \<Rightarrow> Returned n (Some e) Untouched)"
| "decode P a b TyAtom =
     (case parseAtom P b of
        (result, n, None) \<Rightarrow> Returned n None (StoreAtom result)
      | (result, n, Some e) \<Rightarrow> Returned n (Some e) Untouched)"
| "decode P a b TyString =
     (case parseString P b of
        (result, n, None) \<Rightarrow> Returned n None (StoreString result)
      | (result, n, Some e) \<Rightarrow> Returned n (Some e) Untouched)"
| "decode P a b (TyStruct tys) = decodeStruct P a b tys"
| "decode P a b TyBigIntPtr =
     (case parseBigInt P b of
        (result, n, None) \<Rightarrow> Returned n None (StoreBigInt result)
      | (result, n, Some e) \<Rightarrow> Returned n (Some e) Untouched)"
| "decode P a b TyPtr = Returned 0 (Some (TypeError TyPtr)) Untouched"
| "decode P a b TyBytes =
     (case parseBinary P b of
        (result, n, None) \<Rightarrow> Returned n None (StoreBytes result)
      | (result, n, Some e) \<Rightarrow> Returned n (Some e) Untouched)"
| "decode P a b TySlice = Returned 0 (Some (TypeError TySlice)) Untouched"
| "decode P a b (TyByteArray len) =
     (case parseBinary P b of
        (result, n, None) \<Rightarrow>
          if len = length result then Returned n None (StoreArray result)
          else Returned n (Some (OverflowError (OBytes result) (TyByteArray len))) Untouched
      | (result, n, Some e) \<Rightarrow> Returned n (Some e) Untouched)"
| "decode P a b TyArray = Returned 0 (Some (TypeError TyArray)) Untouched"
| "decode P a b TyOther = Returned 0 (Some (TypeError TyOther)) Untouched"
| "decodeStruct P a b tys =
     (case b of
        [] \<Rightarrow> Panicked IndexOutOfRange
      | t # _ \<Rightarrow>
          if t = erlSmallTuple then
            (if 2 \<le> length b then
               (if uint (b ! 1) \<noteq> int (length tys) then
                  Returned 2 (Some (StructuralError
                    (DifferentNumberOfFields (length tys) (uint (b ! 1))))) Untouched
                else
                  (case decode_fields P a b 2 tys of
                     Returned n err sts \<Rightarrow>
                       Returned n err
                         (StoreFields (sts @ replicate (length tys - length sts) Untouched))
                   | Panicked p \<Rightarrow> Panicked p))
             else Returned 0 (Some (StructuralError (InvalidTupleLength (length b)))) Untouched)
          else if t = erlLargeTuple then
            (if 5 \<le> length b then
               (if tuple_arity a (be_Uint32 (take 4 (drop 1 b))) \<noteq> int (length tys) then
                  Returned 5 (Some (StructuralError
                    (DifferentNumberOfFields (length tys)
                       (tuple_arity a (be_Uint32 (take 4 (drop 1 b))))))) Untouched
                else
                  (case decode_fields P a b 5 tys of
                     Returned n err sts \<Rightarrow>
                       Returned n err
                         (StoreFields (sts @ replicate (length tys - length sts) Untouched))
                   | Panicked p \<Rightarrow> Panicked p))
             else Returned 0 (Some (StructuralError (InvalidTupleLength (length b)))) Untouched)
          else Returned 0 (Some (SyntaxError ''not a tuple'')) Untouched)"
| "decode_fields P a b sz [] = Returned sz None []"
| "decode_fields P a b sz (f # fs) =
     (if length b < sz then Panicked SliceBounds
      else
        (case decode P a (drop sz b) f of
           Returned s (Some e) st \<Rightarrow> Returned (sz + s) (Some e) [st]
         | Returned s None st \<Rightarrow>
             (case decode_fields P a b (sz + s) fs of
                Returned n err sts \<Rightarrow> Returned n err (st # sts)
              | Panicked p \<Rightarrow> Panicked p)
         | Panicked p \<Rightarrow> Panicked p))"

text \<open>The entry point: the first byte must be the format version.\<close>

definition Decode_ptr :: "Parsers \<Rightarrow> arch \<Rightarrow> byte list \<Rightarrow> GoType \<Rightarrow> Stored Bridge" where
  "Decode_ptr P a b ty =
     (case b of
        [] \<Rightarrow> Panicked IndexOutOfRange
      | v # rest \<Rightarrow>
          if v \<noteq> erlFormatVersion then Returned 0 (Some (VersionError v)) Untouched
          else
            (case decode P a rest ty of
               Returned n err st \<Rightarrow> Returned (Suc n) err st
             | Panicked p \<Rightarrow> Panicked p))"

section \<open>Reference notions and example hosts\<close>

text \<open>
  Narrowing as the specification words it: the native \<open>int\<close> when the number fits it,
  else \<open>int64\<close> when it fits 64 bits, else the big integer.
\<close>

definition fits :: "nat \<Rightarrow> int \<Rightarrow> bool" where
  "fits w z = (- (2 ^ (w - 1)) \<le> z \<and> z < 2 ^ (w - 1))"

definition narrow :: "arch \<Rightarrow> int \<Rightarrow> Term" where
  "narrow a z =
     (if fits (arch_bits a) z then TInt z else if fits 64 z then TInt64 z else TBigInt z)"

text \<open>The number a little-endian magnitude stands for.\<close>

definition le_value :: "byte list \<Rightarrow> nat" where
  "le_value bs = foldr (\<lambda>x acc. unat x + 256 * acc) bs 0"

text \<open>The integer a decoded term stands for, when it is one.\<close>

fun term_int :: "Term \<Rightarrow> int option" where
  "term_int (TInt z) = Some z"
| "term_int (TInt64 z) = Some z"
| "term_int (TBigInt z) = Some z"
| "term_int _ = None"

text \<open>
  Hosts for the examples: \<open>int\<close> of 64 and of 32 bits, with a float scanner that
  reports failure. \<open>newContext\<close> is \<open>new(Context)\<close>: 2048 nil slots and a nil
  \<open>currentCache\<close>.
\<close>

definition host64 :: Host where
  "host64 = \<lparr>intSize = Bits64, Sscanf = (\<lambda>b. (0, 0, Some ErrScan))\<rparr>"

definition host32 :: Host where
  "host32 = \<lparr>intSize = Bits32, Sscanf = (\<lambda>b. (0, 0, Some ErrScan))\<rparr>"

definition newContext :: Context where
  "newContext = \<lparr>atomCache = replicate 2048 None, currentCache = []\<rparr>"

text \<open>
  Modelled from the spec: \<open>parseInt64\<close> and \<open>parseUint64\<close>, which are not among the
  sources, for the two integer tags of the reader's table (SMALL_INTEGER: one unsigned
  byte; INTEGER: four bytes, big-endian, signed). They serve the examples only; the
  theorems about \<open>decode\<close> hold for any parsers. The other parsers of
  \<open>exampleParsers\<close> are not exercised and report an error.
\<close>

definition example_parseInt64 :: "byte list \<Rightarrow> int64 \<times> nat \<times> decode_error option" where
  "example_parseInt64 b =
     (case b of
        t # x # r \<Rightarrow>
          if t = ettSmallInteger then (ucast x, 2, None)
          else if t = ettInteger \<and> 3 \<le> length r
          then (scast (be_Uint32 (x # take 3 r)), 5, None)
          else (0, 0, Some ParseError)
      | _ \<Rightarrow> (0, 0, Some ParseError))"

definition example_parseUint64 :: "byte list \<Rightarrow> uint64 \<times> nat \<times> decode_error option" where
  "example_parseUint64 b =
     (case b of
        t # x # r \<Rightarrow>
          if t = ettSmallInteger then (ucast x, 2, None)
          else if t = ettInteger \<and> 3 \<le> length r
          then (ucast (be_Uint32 (x # take 3 r)), 5, None)
          else (0, 0, Some ParseError)
      | _ \<Rightarrow> (0, 0, Some ParseError))"

definition exampleParsers :: Parsers where
  "exampleParsers =
     \<lparr>parseBool = (\<lambda>b. (False, 0, Some ParseError)),
      parseInt64 = example_parseInt64,
      parseUint64 = example_parseUint64,
      parseFloat64 = (\<lambda>b. (0, 0, Some ParseError)),
      parseAtom = (\<lambda>b. ([], 0, Some ParseError)),
      parseString = (\<lambda>b. ([], 0, Some ParseError)),
      parseBigInt = (\<lambda>b. (0, 0, Some ParseError)),
      parseBinary = (\<lambda>b. ([], 0, Some ParseError)),
      OverflowFloat32 = (\<lambda>f. False)\<rparr>"

text \<open>
  For the proof that the recursion bound of \<open>Decode\<close> is never reached: an outcome
  \<open>shrinks\<close> a stream when it is not the bound and returns a stream no longer than the
  given one; two readers \<open>agree\<close> up to \<open>n\<close> when on every stream of at most \<open>n\<close>
  bytes they do the same and the outcome shrinks the stream.
\<close>

definition shrinks :: "'a Outcome \<Rightarrow> byte list \<Rightarrow> bool" where
  "shrinks out s =
     (case out of Return t e r \<Rightarrow> length r \<le> length s | Panic p \<Rightarrow> True | OutOfFuel \<Rightarrow> False)"

definition agree ::
  "(byte list \<Rightarrow> Term Outcome) \<Rightarrow> (byte list \<Rightarrow> Term Outcome) \<Rightarrow> nat \<Rightarrow> bool" where
  "agree d d' n = (\<forall>r. length r \<le> n \<longrightarrow> d' r = d r \<and> shrinks (d r) r)"

section \<open>Facts about the readers and the sink\<close>

lemma ruint8_Cons [simp]: "ruint8 (b # r) = (b, None, r)"
  by (simp add: ruint8_def ReadByte_def)

lemma ruint8_Nil [simp]: "ruint8 [] = (0, Some EOF, [])"
  by (simp add: ruint8_def ReadByte_def)

lemma ReadFull_append [simp]: "length xs = n \<Longrightarrow> ReadFull n (xs @ r) = (xs, None, r)"
  by (simp add: ReadFull_def)

lemma ReadFull_exact [simp]: "length xs = n \<Longrightarrow> ReadFull n xs = (xs, None, [])"
  by (simp add: ReadFull_def)

lemma ReadFull_2 [simp]: "ReadFull 2 (a # b # r) = ([a, b], None, r)"
  by (simp add: ReadFull_def)

lemma ReadFull_4 [simp]: "ReadFull 4 (a # b # c # d # r) = ([a, b, c, d], None, r)"
  by (simp add: ReadFull_def)

lemma ReadFull_5 [simp]: "ReadFull 5 (a # b # c # d # e # r) = ([a, b, c, d, e], None, r)"
  by (simp add: ReadFull_def)

lemma then_write_Write [simp]: "then_write (Write a) (b, e) = (a @ b, e)"
  by (simp add: then_write_def Write_def)

lemma then_write_Write2 [simp]: "then_write (Write a) (Write b) = Write (a @ b)"
  by (simp add: then_write_def Write_def)

lemma then_write_error [simp]: "then_write (a, Some e) w = (a, Some e)"
  by (simp add: then_write_def)

lemma then_write_ok [simp]: "then_write (a, None) (b, e) = (a @ b, e)"
  by (simp add: then_write_def)

text \<open>The version byte is skipped; an empty stream is the end of the stream.\<close>

lemma Decode_version [simp]: "Decode h c (EtVersion # r) = Decode h c r"
  by (simp add: Decode_def Decode_step_def)

lemma Decode_Nil [simp]: "Decode h c [] = Return TNil (Some EOF) []"
  by (simp add: Decode_def Decode_step_def)

text \<open>The tags whose case does not re-enter the reader.\<close>

lemma Decode_leaf:
  "Decode h c (ettSmallAtom # r) = Decode_ettSmallAtom r"
  "Decode h c (ettSmallAtomUTF8 # r) = Decode_ettSmallAtom r"
  "Decode h c (ettAtom # r) = Decode_ettAtom r"
  "Decode h c (ettAtomUTF8 # r) = Decode_ettAtom r"
  "Decode h c (ettSmallBig # r) = Decode_ettSmallBig h r"
  "Decode h c (ettLargeBig # r) = Decode_ettLargeBig h r"
  "Decode h c (ettSmallInteger # r) = Decode_ettSmallInteger r"
  "Decode h c (ettInteger # r) = Decode_ettInteger r"
  "Decode h c (ettNil # r) = Return (TList []) None r"
  "Decode h c (ettCacheRef # r) = Decode_ettCacheRef c r"
  by (simp_all add: Decode_def Decode_step_def)

subsection \<open>Big-endian fields\<close>

lemma unat_byte_of_nat: "n \<le> 255 \<Longrightarrow> unat (of_nat n :: byte) = n"
  by (simp add: unat_of_nat)

lemma unat_uint16_of_nat: "n \<le> 65535 \<Longrightarrow> unat (of_nat n :: uint16) = n"
  by (simp add: unat_of_nat)

lemma unat_uint32_of_nat: "n \<le> 4294967295 \<Longrightarrow> unat (of_nat n :: uint32) = n"
  by (simp add: unat_of_nat)

lemma be_Uint16_of_nat: "be_Uint16 [of_nat (drop_bit 8 n), of_nat n] = of_nat n"
proof (rule bit_word_eqI)
  fix k assume "k < LENGTH(16)"
  then consider "k < 8" | "8 \<le> k" "k < 16"
    by fastforce
  then show "bit (be_Uint16 [of_nat (drop_bit 8 n), of_nat n]) k = bit (of_nat n :: uint16) k"
    by cases (auto simp: bit_simps)
qed

lemma be_Uint32_of_nat:
  "be_Uint32 [of_nat (drop_bit 24 n), of_nat (drop_bit 16 n), of_nat (drop_bit 8 n), of_nat n]
   = of_nat n"
proof (rule bit_word_eqI)
  fix k assume "k < LENGTH(32)"
  then consider "k < 8" | "8 \<le> k" "k < 16" | "16 \<le> k" "k < 24" | "24 \<le> k" "k < 32"
    by fastforce
  then show "bit (be_Uint32 [of_nat (drop_bit 24 n), of_nat (drop_bit 16 n),
                             of_nat (drop_bit 8 n), of_nat n]) k = bit (of_nat n :: uint32) k"
    by cases (auto simp: bit_simps)
qed

lemma be_Uint32_bytes:
  "be_Uint32 [ucast (drop_bit 24 x), ucast (drop_bit 16 x), ucast (drop_bit 8 x), ucast x]
   = (x :: uint32)"
proof (rule bit_word_eqI)
  fix n assume "n < LENGTH(32)"
  then consider "n < 8" | "8 \<le> n" "n < 16" | "16 \<le> n" "n < 24" | "24 \<le> n" "n < 32"
    by fastforce
  then show "bit (be_Uint32 [ucast (drop_bit 24 x), ucast (drop_bit 16 x),
                             ucast (drop_bit 8 x), ucast x]) n = bit x n"
    by cases (auto simp: bit_simps)
qed

lemma be_Uint32_signed_bytes:
  "be_Uint32 [ucast (signed_drop_bit 24 x), ucast (signed_drop_bit 16 x),
              ucast (signed_drop_bit 8 x), ucast x] = (x :: int32)"
proof (rule bit_word_eqI)
  fix n assume "n < LENGTH(32)"
  then consider "n < 8" | "8 \<le> n" "n < 16" | "16 \<le> n" "n < 24" | "24 \<le> n" "n < 32"
    by fastforce
  then show "bit (be_Uint32 [ucast (signed_drop_bit 24 x), ucast (signed_drop_bit 16 x),
                             ucast (signed_drop_bit 8 x), ucast x]) n = bit x n"
    by cases (auto simp: bit_simps)
qed

lemma be_Uint32_signed_bytes64:
  "be_Uint32 [ucast (signed_drop_bit 24 x), ucast (signed_drop_bit 16 x),
              ucast (signed_drop_bit 8 x), ucast x] = (ucast (x :: int64) :: int32)"
proof (rule bit_word_eqI)
  fix n assume "n < LENGTH(32)"
  then consider "n < 8" | "8 \<le> n" "n < 16" | "16 \<le> n" "n < 24" | "24 \<le> n" "n < 32"
    by fastforce
  then show "bit (be_Uint32 [ucast (signed_drop_bit 24 x), ucast (signed_drop_bit 16 x),
                             ucast (signed_drop_bit 8 x), ucast x]) n
             = bit (ucast x :: int32) n"
    by cases (auto simp: bit_simps)
qed

lemma be_Uint32_pid:
  "be_Uint32 [0, 0, ucast (drop_bit 8 x), ucast x] = take_bit 16 (x :: uint32)"
proof (rule bit_word_eqI)
  fix n assume "n < LENGTH(32)"
  then consider "n < 8" | "8 \<le> n" "n < 16" | "16 \<le> n" "n < 24" | "24 \<le> n" "n < 32"
    by fastforce
  then show "bit (be_Uint32 [0, 0, ucast (drop_bit 8 x), ucast x]) n = bit (take_bit 16 x) n"
    by cases (auto simp: bit_simps)
qed

lemma unat_take_bit_16: "unat (take_bit 16 (x :: uint32)) = unat x mod 65536"
  unfolding unsigned_take_bit_eq by (simp add: take_bit_eq_mod)

subsection \<open>Signed values\<close>

lemma sint_ucast_64_32: "sint (ucast (x :: int64) :: int32) = signed_take_bit 31 (sint x)"
  by (rule bit_eqI) (auto simp: bit_simps min_def)

lemma sint_ucast_32:
  "- 2147483648 \<le> sint (x :: int64) \<Longrightarrow> sint x \<le> 2147483647 \<Longrightarrow>
   sint (ucast x :: int32) = sint x"
  by (simp add: sint_ucast_64_32 signed_take_bit_int_eq_self)

lemma sint_scast_32: "sint (scast (y :: int32) :: int64) = sint y"
  by (simp add: sint_up_scast is_up)

lemma scast_ucast_iff:
  "((scast (ucast x :: int32) :: int64) = x)
   = (- 2147483648 \<le> sint (x :: int64) \<and> sint x \<le> 2147483647)"
proof
  assume h: "(scast (ucast x :: int32) :: int64) = x"
  have "sint x = sint (ucast x :: int32)"
    using sint_scast_32 [of "ucast x"] h by simp
  moreover have "- 2147483648 \<le> sint (ucast x :: int32)" "sint (ucast x :: int32) \<le> 2147483647"
    using sint_range_size [of "ucast x :: int32"] by (simp_all add: word_size)
  ultimately show "- 2147483648 \<le> sint x \<and> sint x \<le> 2147483647" by simp
next
  assume h: "- 2147483648 \<le> sint x \<and> sint x \<le> 2147483647"
  then have "sint (ucast x :: int32) = sint x" by (simp add: sint_ucast_32)
  then have "sint (scast (ucast x :: int32) :: int64) = sint x" by (simp add: sint_scast_32)
  then show "(scast (ucast x :: int32) :: int64) = x" by (rule signed_word_eqI)
qed

section \<open>The reader is total\<close>

lemma shrinks_simps [simp]:
  "shrinks (Return t e r) s = (length r \<le> length s)"
  "shrinks (Panic p) s = True"
  "shrinks OutOfFuel s = False"
  by (simp_all add: shrinks_def)

lemma shrinks_trans: "shrinks out r \<Longrightarrow> length r \<le> length s \<Longrightarrow> shrinks out s"
  by (cases out) simp_all

lemma agree_eq: "agree d d' n \<Longrightarrow> length r \<le> n \<Longrightarrow> d' r = d r"
  by (simp add: agree_def)

lemma agree_shrinks: "agree d d' n \<Longrightarrow> length r \<le> n \<Longrightarrow> shrinks (d r) r"
  by (simp add: agree_def)

lemma agree_Return:
  "agree d d' n \<Longrightarrow> length s \<le> n \<Longrightarrow> d s = Return t e r \<Longrightarrow> length r \<le> length s \<and> length r \<le> n"
  using agree_shrinks [of d d' n s] by simp

lemma ReadFull_length: "ReadFull k s = (b, e, r) \<Longrightarrow> length r \<le> length s"
  by (auto simp: ReadFull_def split: if_splits)

lemma ruint8_length: "ruint8 s = (x, e, r) \<Longrightarrow> length r \<le> length s"
  by (cases s) auto

lemma ruint16_length: "ruint16 s = (x, e, r) \<Longrightarrow> length r \<le> length s"
  by (auto simp: ruint16_def split: prod.splits dest: ReadFull_length)

lemma ruint32_length: "ruint32 s = (x, e, r) \<Longrightarrow> length r \<le> length s"
  by (auto simp: ruint32_def split: prod.splits dest: ReadFull_length)

lemma buint8_length: "buint8 s = (x, e, r) \<Longrightarrow> length r \<le> length s"
  by (auto simp: buint8_def split: prod.splits dest: ruint8_length)

lemma buint16_length: "buint16 s = (x, e, r) \<Longrightarrow> length r \<le> length s"
  by (auto simp: buint16_def split: prod.splits dest: ruint16_length)

lemma buint32_length: "buint32 s = (x, e, r) \<Longrightarrow> length r \<le> length s"
  by (auto simp: buint32_def split: prod.splits dest: ruint32_length)

lemma read_ids_length: "read_ids k s = (xs, e, r) \<Longrightarrow> length r \<le> length s"
proof (induction k arbitrary: s xs e r)
  case 0
  then show ?case by simp
next
  case (Suc k)
  obtain x e1 r1 where a: "ruint32 s = (x, e1, r1)" by (cases "ruint32 s") auto
  then have l: "length r1 \<le> length s" by (rule ruint32_length)
  show ?case
  proof (cases e1)
    case None
    obtain ys e2 r2 where b: "read_ids k r1 = (ys, e2, r2)" by (cases "read_ids k r1") auto
    then have "length r2 \<le> length r1" by (rule Suc.IH)
    with Suc.prems a b None l show ?thesis by simp
  next
    case (Some e')
    with Suc.prems a l show ?thesis by simp
  qed
qed

text \<open>The leaves.\<close>

lemma leaf_shrinks:
  "shrinks (Decode_ettAtom s) s"
  "shrinks (Decode_ettSmallAtom s) s"
  "shrinks (Decode_ettBinary s) s"
  "shrinks (Decode_ettString s) s"
  "shrinks (Decode_ettNewFloat s) s"
  "shrinks (Decode_ettSmallInteger s) s"
  "shrinks (Decode_ettInteger s) s"
  "shrinks (Decode_ettBitBinary s) s"
  by (auto simp: Decode_ettAtom_def Decode_ettSmallAtom_def Decode_ettBinary_def Decode_ettString_def
        Decode_ettNewFloat_def Decode_ettSmallInteger_def Decode_ettInteger_def
        Decode_ettBitBinary_def
      split: prod.splits option.splits
      dest!: ReadFull_length ruint8_length ruint16_length ruint32_length buint8_length
        buint16_length buint32_length)

lemma float_shrinks: "shrinks (Decode_ettFloat h s) s"
  by (auto simp: Decode_ettFloat_def split: prod.splits option.splits dest!: ReadFull_length)

lemma cache_shrinks: "shrinks (Decode_ettCacheRef c s) s"
  by (auto simp: Decode_ettCacheRef_def split: prod.splits option.splits dest!: ReadFull_length)

lemma readBigInt_shrinks: "shrinks (readBigInt h s b sign) s"
  by (auto simp: readBigInt_def Let_def split: prod.splits option.splits dest!: ReadFull_length)

lemma big_shrinks:
  "shrinks (Decode_ettSmallBig h s) s"
  "shrinks (Decode_ettLargeBig h s) s"
  by (auto simp: Decode_ettSmallBig_def Decode_ettLargeBig_def split: prod.splits option.splits
      dest!: ReadFull_length intro: shrinks_trans [OF readBigInt_shrinks])


text \<open>The loops and the cases that re-enter the reader.\<close>

lemma decode_elems_agree:
  "agree d d' n \<Longrightarrow> length s \<le> n \<Longrightarrow>
   decode_elems d' k s = decode_elems d k s \<and> shrinks (decode_elems d k s) s"
proof (induction k arbitrary: s)
  case 0
  then show ?case by simp
next
  case (Suc k)
  have eq: "d' s = d s" using Suc.prems by (simp add: agree_eq)
  show ?case
  proof (cases "d s")
    case (Return t e r)
    then have l: "length r \<le> length s" "length r \<le> n"
      using agree_Return [OF Suc.prems Return] by simp_all
    show ?thesis
    proof (cases e)
      case None
      have "decode_elems d' k r = decode_elems d k r \<and> shrinks (decode_elems d k r) r"
        using Suc.IH [OF Suc.prems(1) l(2)] .
      then show ?thesis
        using eq Return None l by (cases "decode_elems d k r") auto
    next
      case (Some a)
      then show ?thesis using eq Return l by simp
    qed
  next
    case (Panic p)
    then show ?thesis using eq by simp
  next
    case OutOfFuel
    then show ?thesis using agree_shrinks [OF Suc.prems] by simp
  qed
qed

lemma decode4_agree:
  assumes "agree d d' n" "length s \<le> n"
  shows "decode4 d' s = decode4 d s \<and> shrinks (decode4 d s) s"
proof -
  have step: "d' r = d r \<and> shrinks (d r) r" if "length r \<le> n" for r
    using assms(1) that by (simp add: agree_def)
  show ?thesis
  proof (cases "d s")
    case r1: (Return t1 e1 r1)
    then have l1: "length r1 \<le> length s" using step [of s] assms(2) by simp
    show ?thesis
    proof (cases "d r1")
      case r2: (Return t2 e2 r2)
      then have l2: "length r2 \<le> length r1" using step [of r1] l1 assms(2) by simp
      show ?thesis
      proof (cases "d r2")
        case r3: (Return t3 e3 r3)
        then have l3: "length r3 \<le> length r2" using step [of r2] l1 l2 assms(2) by simp
        show ?thesis
        proof (cases "d r3")
          case r4: (Return t4 e4 r4)
          then have l4: "length r4 \<le> length r3" using step [of r3] l1 l2 l3 assms(2) by simp
          show ?thesis
            using r1 r2 r3 r4 l1 l2 l3 l4 assms(2) step [of s] step [of r1] step [of r2] step [of r3]
            by (simp add: decode4_def)
        next
          case (Panic p)
          then show ?thesis
            using r1 r2 r3 l1 l2 l3 assms(2) step [of s] step [of r1] step [of r2] step [of r3]
            by (simp add: decode4_def)
        next
          case OutOfFuel
          then show ?thesis using step [of r3] l1 l2 l3 assms(2) by simp
        qed
      next
        case (Panic p)
        then show ?thesis
          using r1 r2 l1 l2 assms(2) step [of s] step [of r1] step [of r2]
          by (simp add: decode4_def)
      next
        case OutOfFuel
        then show ?thesis using step [of r2] l1 l2 assms(2) by simp
      qed
    next
      case (Panic p)
      then show ?thesis
        using r1 l1 assms(2) step [of s] step [of r1] by (simp add: decode4_def)
    next
      case OutOfFuel
      then show ?thesis using step [of r1] l1 assms(2) by simp
    qed
  next
    case (Panic p)
    then show ?thesis using assms(2) step [of s] by (simp add: decode4_def)
  next
    case OutOfFuel
    then show ?thesis using step [of s] assms(2) by simp
  qed
qed

lemma fun_fields_agree:
  assumes "agree d d' n" "length s \<le> n"
  shows "fun_fields d' ar u i f m oi ou pid s = fun_fields d ar u i f m oi ou pid s \<and>
         shrinks (fun_fields d ar u i f m oi ou pid s) s"
  using decode_elems_agree [OF assms, of "unat f"]
  by (cases "decode_elems d (unat f) s")
     (auto simp: fun_fields_def split: Term.splits)

lemma Decode_tuple_agree:
  assumes "agree d d' n" "length s \<le> n"
  shows "Decode_tuple d' k s = Decode_tuple d k s \<and> shrinks (Decode_tuple d k s) s"
  using decode_elems_agree [OF assms, of k]
  by (cases "decode_elems d k s") (auto simp: Decode_tuple_def)


lemma Decode_ettPid_agree:
  assumes "agree d d' n" "length s \<le> n"
  shows "Decode_ettPid d' s = Decode_ettPid d s \<and> shrinks (Decode_ettPid d s) s"
proof -
  have a: "d' s = d s" "shrinks (d s) s"
    using assms by (simp_all add: agree_def)
  then show ?thesis
    by (cases "d s")
       (auto simp: Decode_ettPid_def split: option.splits prod.splits Term.splits
             dest!: ReadFull_length)
qed

lemma Decode_ettRef_agree:
  assumes "agree d d' n" "length s \<le> n"
  shows "Decode_ettRef d' s = Decode_ettRef d s \<and> shrinks (Decode_ettRef d s) s"
proof -
  have a: "d' s = d s" "shrinks (d s) s"
    using assms by (simp_all add: agree_def)
  then show ?thesis
    by (cases "d s")
       (auto simp: Decode_ettRef_def split: option.splits prod.splits Term.splits
             dest!: ReadFull_length ruint32_length)
qed

lemma Decode_ettPort_agree:
  assumes "agree d d' n" "length s \<le> n"
  shows "Decode_ettPort d' s = Decode_ettPort d s \<and> shrinks (Decode_ettPort d s) s"
proof -
  have a: "d' s = d s" "shrinks (d s) s"
    using assms by (simp_all add: agree_def)
  then show ?thesis
    by (cases "d s")
       (auto simp: Decode_ettPort_def split: option.splits prod.splits Term.splits
             dest!: ruint8_length ruint32_length)
qed

lemma Decode_ettNewRef_agree:
  assumes "agree d d' n" "length s \<le> n"
  shows "Decode_ettNewRef d' s = Decode_ettNewRef d s \<and> shrinks (Decode_ettNewRef d s) s"
proof -
  obtain nid e r where h: "ruint16 s = (nid, e, r)" by (cases "ruint16 s") auto
  then have l: "length r \<le> length s" by (rule ruint16_length)
  then have a: "d' r = d r" "shrinks (d r) r"
    using assms by (simp_all add: agree_def)
  show ?thesis
  proof (cases e)
    case None
    with a l h show ?thesis
      by (cases "d r")
         (auto simp: Decode_ettNewRef_def split: option.splits prod.splits Term.splits
               dest!: ruint8_length read_ids_length)
  next
    case (Some e')
    with h l show ?thesis by (simp add: Decode_ettNewRef_def)
  qed
qed

lemma Decode_ettSmallTuple_agree:
  assumes "agree d d' n" "length s \<le> n"
  shows "Decode_ettSmallTuple d' s = Decode_ettSmallTuple d s \<and>
         shrinks (Decode_ettSmallTuple d s) s"
proof -
  obtain x e r where h: "ruint8 s = (x, e, r)" by (cases "ruint8 s") auto
  then have l: "length r \<le> length s" by (rule ruint8_length)
  then have "Decode_tuple d' (unat x) r = Decode_tuple d (unat x) r \<and>
             shrinks (Decode_tuple d (unat x) r) r"
    using Decode_tuple_agree [OF assms(1), of r "unat x"] assms(2) by simp
  with h l show ?thesis
    by (cases e) (auto simp: Decode_ettSmallTuple_def intro: shrinks_trans)
qed

lemma Decode_ettLargeTuple_agree:
  assumes "agree d d' n" "length s \<le> n"
  shows "Decode_ettLargeTuple d' s = Decode_ettLargeTuple d s \<and>
         shrinks (Decode_ettLargeTuple d s) s"
proof -
  obtain x e r where h: "ruint32 s = (x, e, r)" by (cases "ruint32 s") auto
  then have l: "length r \<le> length s" by (rule ruint32_length)
  then have "Decode_tuple d' (unat x) r = Decode_tuple d (unat x) r \<and>
             shrinks (Decode_tuple d (unat x) r) r"
    using Decode_tuple_agree [OF assms(1), of r "unat x"] assms(2) by simp
  with h l show ?thesis
    by (cases e) (auto simp: Decode_ettLargeTuple_def intro: shrinks_trans)
qed

lemma Decode_ettList_agree:
  assumes "agree d d' n" "length s \<le> n"
  shows "Decode_ettList d' s = Decode_ettList d s \<and> shrinks (Decode_ettList d s) s"
proof -
  obtain x e r where h: "ruint32 s = (x, e, r)" by (cases "ruint32 s") auto
  then have l: "length r \<le> length s" by (rule ruint32_length)
  then have "decode_elems d' (unat (x + 1)) r = decode_elems d (unat (x + 1)) r \<and>
             shrinks (decode_elems d (unat (x + 1)) r) r"
    using decode_elems_agree [OF assms(1), of r "unat (x + 1)"] assms(2) by simp
  with h l show ?thesis
    by (cases e; cases "decode_elems d (unat (x + 1)) r")
       (auto simp: Decode_ettList_def split: option.splits Term.splits)
qed

lemma Decode_ettExport_agree:
  assumes "agree d d' n" "length s \<le> n"
  shows "Decode_ettExport d' s = Decode_ettExport d s \<and> shrinks (Decode_ettExport d s) s"
proof -
  have step: "d' r = d r \<and> shrinks (d r) r" if "length r \<le> n" for r
    using assms(1) that by (simp add: agree_def)
  show ?thesis
  proof (cases "d s")
    case r1: (Return m e1 r1)
    then have l1: "length r1 \<le> length s" using step [of s] assms(2) by simp
    show ?thesis
    proof (cases e1)
      case None
      show ?thesis
      proof (cases "d r1")
        case r2: (Return f e2 r2)
        then have l2: "length r2 \<le> length r1" using step [of r1] l1 assms(2) by simp
        show ?thesis
          using r1 None r2 l1 l2 assms(2) step [of s] step [of r1]
          by (auto simp: Decode_ettExport_def split: option.splits prod.splits Term.splits
                dest!: ruint8_length)
      next
        case (Panic p)
        then show ?thesis
          using r1 None l1 assms(2) step [of s] step [of r1] by (simp add: Decode_ettExport_def)
      next
        case OutOfFuel
        then show ?thesis using step [of r1] l1 assms(2) by simp
      qed
    next
      case (Some e)
      then show ?thesis using r1 l1 assms(2) step [of s] by (simp add: Decode_ettExport_def)
    qed
  next
    case (Panic p)
    then show ?thesis using assms(2) step [of s] by (simp add: Decode_ettExport_def)
  next
    case OutOfFuel
    then show ?thesis using step [of s] assms(2) by simp
  qed
qed

lemma Decode_ettFun_agree:
  assumes "agree d d' n" "length s \<le> n"
  shows "Decode_ettFun d' s = Decode_ettFun d s \<and> shrinks (Decode_ettFun d s) s"
proof -
  obtain x e r where h: "ruint32 s = (x, e, r)" by (cases "ruint32 s") auto
  then have l: "length r \<le> length s" by (rule ruint32_length)
  then have four: "decode4 d' r = decode4 d r \<and> shrinks (decode4 d r) r"
    using decode4_agree [OF assms(1), of r] assms(2) by simp
  show ?thesis
  proof (cases "decode4 d r")
    case (Return ts e4 r4)
    obtain pid m oi ou where ts: "ts = (pid, m, oi, ou)" by (cases ts) auto
    have l4: "length r4 \<le> length r" using four Return by simp
    then have "fun_fields d' 0 (replicate 16 0) 0 x m oi ou pid r4
               = fun_fields d 0 (replicate 16 0) 0 x m oi ou pid r4 \<and>
               shrinks (fun_fields d 0 (replicate 16 0) 0 x m oi ou pid r4) r4"
      using fun_fields_agree [OF assms(1), of r4] assms(2) l by simp
    then show ?thesis
      using h four Return ts l l4
      by (auto simp: Decode_ettFun_def intro: shrinks_trans)
  next
    case (Panic p)
    then show ?thesis using h four by (simp add: Decode_ettFun_def)
  next
    case OutOfFuel
    then show ?thesis using four by simp
  qed
qed

lemma Decode_ettNewFun_agree:
  assumes "agree d d' n" "length s \<le> n"
  shows "Decode_ettNewFun d' s = Decode_ettNewFun d s \<and> shrinks (Decode_ettNewFun d s) s"
proof -
  obtain sz e0 r0 where h0: "ruint32 s = (sz, e0, r0)" by (cases "ruint32 s") auto
  obtain ar e1 r1 where h1: "ruint8 r0 = (ar, e1, r1)" by (cases "ruint8 r0") auto
  obtain u e2 r2 where h2: "ReadFull 16 r1 = (u, e2, r2)" by (cases "ReadFull 16 r1") auto
  obtain ix e3 r3 where h3: "ruint32 r2 = (ix, e3, r3)" by (cases "ruint32 r2") auto
  obtain fr e4 r4 where h4: "ruint32 r3 = (fr, e4, r4)" by (cases "ruint32 r3") auto
  have l: "length r4 \<le> length s"
    using ruint32_length [OF h0] ruint8_length [OF h1] ReadFull_length [OF h2]
      ruint32_length [OF h3] ruint32_length [OF h4] by linarith
  then have four: "decode4 d' r4 = decode4 d r4 \<and> shrinks (decode4 d r4) r4"
    using decode4_agree [OF assms(1), of r4] assms(2) by simp
  show ?thesis
  proof (cases "decode4 d r4")
    case (Return ts e5 r5)
    obtain m oi ou pid where ts: "ts = (m, oi, ou, pid)" by (cases ts) auto
    have l5: "length r5 \<le> length r4" using four Return by simp
    then have "fun_fields d' ar u ix fr m oi ou pid r5 = fun_fields d ar u ix fr m oi ou pid r5 \<and>
               shrinks (fun_fields d ar u ix fr m oi ou pid r5) r5"
      using fun_fields_agree [OF assms(1), of r5] assms(2) l by simp
    then show ?thesis
      using h0 h1 h2 h3 h4 four Return ts l l5
      by (auto simp: Decode_ettNewFun_def intro: shrinks_trans)
  next
    case (Panic p)
    then show ?thesis using h0 h1 h2 h3 h4 four by (simp add: Decode_ettNewFun_def)
  next
    case OutOfFuel
    then show ?thesis using four by simp
  qed
qed


text \<open>One call of the reader, given child calls that agree on every shorter stream.\<close>

lemma Decode_step_agree:
  assumes "agree d d' n" "length s \<le> Suc n"
  shows "Decode_step h c d' s = Decode_step h c d s \<and> shrinks (Decode_step h c d s) s"
proof (cases s)
  case Nil
  then show ?thesis by (simp add: Decode_step_def)
next
  case (Cons t r)
  then have l: "length r \<le> n" using assms(2) by simp
  have up: "shrinks out r \<Longrightarrow> shrinks out (t # r)" for out :: "Term Outcome"
    by (cases out) simp_all
  note rec = Decode_ettPid_agree [OF assms(1) l] Decode_ettNewRef_agree [OF assms(1) l]
    Decode_ettRef_agree [OF assms(1) l] Decode_ettSmallTuple_agree [OF assms(1) l]
    Decode_ettLargeTuple_agree [OF assms(1) l] Decode_ettList_agree [OF assms(1) l]
    Decode_ettExport_agree [OF assms(1) l] Decode_ettNewFun_agree [OF assms(1) l]
    Decode_ettFun_agree [OF assms(1) l] Decode_ettPort_agree [OF assms(1) l]
  have v: "d' r = d r" "shrinks (d r) r"
    using assms(1) l by (simp_all add: agree_def)
  show ?thesis
    unfolding Cons Decode_step_def
    using rec v leaf_shrinks [where s = r] big_shrinks [where s = r and h = h]
      float_shrinks [of h r] cache_shrinks [of c r]
    by (simp add: up)
qed

theorem Decode_fuel_agree:
  "n \<le> j \<Longrightarrow> agree (Decode_fuel (Suc n) h c) (Decode_fuel (Suc j) h c) n"
proof (induction n arbitrary: j)
  case 0
  show ?case
    by (simp add: agree_def Decode_step_def)
next
  case (Suc n)
  then obtain j' where j: "j = Suc j'" "n \<le> j'" by (cases j) auto
  have a: "agree (Decode_fuel (Suc n) h c) (Decode_fuel (Suc j') h c) n"
    using Suc.IH [OF j(2)] .
  show ?case
    unfolding agree_def
  proof (intro allI impI)
    fix r :: "byte list" assume "length r \<le> Suc n"
    then show "Decode_fuel (Suc j) h c r = Decode_fuel (Suc (Suc n)) h c r \<and>
               shrinks (Decode_fuel (Suc (Suc n)) h c r) r"
      using Decode_step_agree [OF a, of r h c] j(1) by simp
  qed
qed

text \<open>
  More fuel than the length of the stream changes nothing; the reader never runs out of
  fuel, never returns a longer stream than it was given, and satisfies the recursive
  equation of the source.
\<close>

lemma Decode_fuel_enough: "length s \<le> j \<Longrightarrow> Decode_fuel (Suc j) h c s = Decode h c s"
  using Decode_fuel_agree [of "length s" j h c] by (simp add: agree_def Decode_def)

lemma Decode_shrinks: "shrinks (Decode h c s) s"
  using Decode_fuel_agree [of "length s" "length s" h c] by (simp add: agree_def Decode_def)

lemma Decode_not_OutOfFuel: "Decode h c s \<noteq> OutOfFuel"
  using Decode_shrinks [of h c s] by auto

lemma Decode_rest_length: "Decode h c s = Return t e r \<Longrightarrow> length r \<le> length s"
  using Decode_shrinks [of h c s] by simp

lemma agree_Decode: "agree (Decode_fuel (Suc n) h c) (Decode h c) n"
  unfolding agree_def
proof (intro allI impI)
  fix r :: "byte list" assume l: "length r \<le> n"
  show "Decode h c r = Decode_fuel (Suc n) h c r \<and> shrinks (Decode_fuel (Suc n) h c r) r"
    using Decode_fuel_enough [OF l, of h c] Decode_shrinks [of h c r] by simp
qed

theorem Decode_unfold: "Decode h c s = Decode_step h c (Decode h c) s"
proof (cases s)
  case Nil
  then show ?thesis by (simp add: Decode_step_def)
next
  case (Cons t r)
  have "Decode h c s = Decode_step h c (Decode_fuel (Suc (length r)) h c) s"
    using Cons by (simp add: Decode_def)
  also have "\<dots> = Decode_step h c (Decode h c) s"
    using Decode_step_agree [OF agree_Decode, of s "length r" h c] Cons by simp
  finally show ?thesis .
qed

text \<open>The tags whose case re-enters the reader.\<close>

lemma Decode_rec:
  "Decode h c (ettPid # r) = Decode_ettPid (Decode h c) r"
  "Decode h c (ettNewRef # r) = Decode_ettNewRef (Decode h c) r"
  "Decode h c (ettRef # r) = Decode_ettRef (Decode h c) r"
  "Decode h c (ettSmallTuple # r) = Decode_ettSmallTuple (Decode h c) r"
  "Decode h c (ettLargeTuple # r) = Decode_ettLargeTuple (Decode h c) r"
  "Decode h c (ettList # r) = Decode_ettList (Decode h c) r"
  "Decode h c (ettExport # r) = Decode_ettExport (Decode h c) r"
  "Decode h c (ettNewFun # r) = Decode_ettNewFun (Decode h c) r"
  "Decode h c (ettFun # r) = Decode_ettFun (Decode h c) r"
  "Decode h c (ettPort # r) = Decode_ettPort (Decode h c) r"
  by (subst Decode_unfold, simp add: Decode_step_def)+

lemma decode_elems_length: "decode_elems d k s = Return ts None r \<Longrightarrow> length ts = k"
proof (induction k arbitrary: s ts r)
  case 0
  then show ?case by simp
next
  case (Suc k)
  then show ?case
    by (auto split: Outcome.splits option.splits)
qed

lemma decode_elems_error_length:
  "decode_elems d k s = Return ts (Some e) r \<Longrightarrow> 0 < length ts \<and> length ts \<le> k"
proof (induction k arbitrary: s ts r)
  case 0
  then show ?case by simp
next
  case (Suc k)
  then show ?case
    by (fastforce split: Outcome.splits option.splits)
qed

section \<open>Atoms and booleans\<close>

lemma newAtom_simps [simp]:
  "newAtom bTrue = TBool True" "newAtom bFalse = TBool False"
  by (simp_all add: newAtom_def)

lemma newAtom_TAtom: "b \<noteq> bTrue \<Longrightarrow> b \<noteq> bFalse \<Longrightarrow> newAtom b = TAtom b"
  by (simp add: newAtom_def)

lemma Decode_ettSmallAtom_bytes:
  "length b \<le> 255 \<Longrightarrow>
   Decode_ettSmallAtom (of_nat (length b) # b @ rest) = Return (newAtom b) None rest"
  by (simp add: Decode_ettSmallAtom_def buint8_def unat_byte_of_nat)

lemma Decode_ettAtom_bytes:
  "length b \<le> 65535 \<Longrightarrow>
   Decode_ettAtom (of_nat (drop_bit 8 (length b)) # of_nat (length b) # b @ rest)
   = Return (newAtom b) None rest"
  by (simp add: Decode_ettAtom_def buint16_def ruint16_def be_Uint16_of_nat unat_uint16_of_nat
        del: be_Uint16.simps)

lemma writeAtom_small:
  "length a \<le> 255 \<Longrightarrow> writeAtom a = (ettSmallAtom # of_nat (length a) # a, None)"
  by (simp add: writeAtom_def Write_def)

lemma writeAtom_large:
  "255 < length a \<Longrightarrow> length a \<le> 65535 \<Longrightarrow>
   writeAtom a = (ettAtom # of_nat (drop_bit 8 (length a)) # of_nat (length a) # a, None)"
  by (simp add: writeAtom_def Write_def Let_def)

lemma writeAtom_too_big:
  "65535 < length a \<Longrightarrow> writeAtom a = ([], Some (ErrAtomTooBig (length a)))"
  by (simp add: writeAtom_def)

lemma write_Atom_eq: "write_Atom a = writeAtom a"
  by (simp add: write_Atom_def writeAtom_def)

lemma writeBool_eq: "writeBool b = writeAtom (if b then bTrue else bFalse)"
  by (simp add: writeBool_def writeAtom_def)

lemma write_Bool_eq: "write_Bool b = writeBool b"
  by (simp add: write_Bool_def write_Atom_eq writeBool_eq)

text \<open>An atom that the writer accepts is read back through \<open>newAtom\<close>.\<close>

lemma Decode_writeAtom:
  assumes "length a \<le> 65535"
  shows "Decode h c (fst (writeAtom a) @ rest) = Return (newAtom a) None rest"
proof (cases "length a \<le> 255")
  case True
  then show ?thesis
    by (simp add: writeAtom_small Decode_leaf Decode_ettSmallAtom_bytes)
next
  case False
  with assms show ?thesis
    by (simp add: writeAtom_large Decode_leaf Decode_ettAtom_bytes)
qed

text \<open>
  C8. An atom of \<open>L\<close> bytes is written with the SMALL_ATOM tag exactly when
  \<open>L \<le> 255\<close>, with the ATOM tag exactly when \<open>255 < L \<le> 65535\<close>, and the writer
  fails exactly when \<open>L > 65535\<close>; this holds for \<open>Encoder.writeAtom\<close> and for
  \<open>write.Atom\<close>.
\<close>

theorem writeAtom_tag_by_length:
  "((\<exists>bs. writeAtom a = (ettSmallAtom # bs, None)) = (length a \<le> 255)) \<and>
   ((\<exists>bs. writeAtom a = (ettAtom # bs, None)) = (255 < length a \<and> length a \<le> 65535)) \<and>
   ((\<exists>e. snd (writeAtom a) = Some e) = (65535 < length a)) \<and>
   ((\<exists>bs. write_Atom a = (ettSmallAtom # bs, None)) = (length a \<le> 255)) \<and>
   ((\<exists>bs. write_Atom a = (ettAtom # bs, None)) = (255 < length a \<and> length a \<le> 65535)) \<and>
   ((\<exists>e. snd (write_Atom a) = Some e) = (65535 < length a))"
proof -
  consider "length a \<le> 255" | "255 < length a" "length a \<le> 65535" | "65535 < length a"
    by linarith
  then have
    "((\<exists>bs. writeAtom a = (ettSmallAtom # bs, None)) = (length a \<le> 255)) \<and>
     ((\<exists>bs. writeAtom a = (ettAtom # bs, None)) = (255 < length a \<and> length a \<le> 65535)) \<and>
     ((\<exists>e. snd (writeAtom a) = Some e) = (65535 < length a))"
  proof cases
    case 1
    then show ?thesis by (simp add: writeAtom_small)
  next
    case 2
    then show ?thesis by (simp add: writeAtom_large)
  next
    case 3
    then show ?thesis by (simp add: writeAtom_too_big)
  qed
  then show ?thesis by (simp only: write_Atom_eq simp_thms)
qed

theorem writeAtom_tag_by_length_witness:
  "(\<exists>bs. writeAtom [111, 107] = (ettSmallAtom # bs, None)) \<and>
   \<not> (\<exists>bs. writeAtom (replicate 256 97) = (ettSmallAtom # bs, None)) \<and>
   (\<exists>bs. writeAtom (replicate 256 97) = (ettAtom # bs, None)) \<and>
   (\<exists>e. snd (writeAtom (replicate 65536 97)) = Some e)"
  using writeAtom_tag_by_length [of "[111, 107]"] writeAtom_tag_by_length [of "replicate 256 97"]
    writeAtom_tag_by_length [of "replicate 65536 97"]
  by simp

text \<open>
  C9. A boolean written by \<open>writeBool\<close> (or by \<open>Encode\<close>, or by \<open>write.Bool\<close>) is
  read back as the same boolean, whatever follows it in the stream;
  \<open>Encode(true)\<close> emits the bytes 83 73 04 74 72 75 65 (hexadecimal) and these decode
  to the boolean \<open>true\<close>; under each of the four atom tags the texts \<open>true\<close> and
  \<open>false\<close> decode to booleans, and \<open>newAtom\<close> never yields either as an atom.
\<close>

theorem writeBool_roundtrip:
  "snd (writeBool b) = None \<and>
   Decode h c (fst (writeBool b) @ rest) = Return (TBool b) None rest \<and>
   Encode (VBool b) = (EtVersion # fst (writeBool b), None) \<and>
   Decode h c (fst (Encode (VBool b)) @ rest) = Return (TBool b) None rest \<and>
   write_Bool b = writeBool b \<and>
   Encode (VBool True) = ([131, 115, 4, 116, 114, 117, 101], None) \<and>
   Decode h c ([131, 115, 4, 116, 114, 117, 101] @ rest) = Return (TBool True) None rest \<and>
   Decode h c (ettSmallAtom # 4 # bTrue @ rest) = Return (TBool True) None rest \<and>
   Decode h c (ettSmallAtom # 5 # bFalse @ rest) = Return (TBool False) None rest \<and>
   Decode h c (ettSmallAtomUTF8 # 4 # bTrue @ rest) = Return (TBool True) None rest \<and>
   Decode h c (ettSmallAtomUTF8 # 5 # bFalse @ rest) = Return (TBool False) None rest \<and>
   Decode h c (ettAtom # 0 # 4 # bTrue @ rest) = Return (TBool True) None rest \<and>
   Decode h c (ettAtom # 0 # 5 # bFalse @ rest) = Return (TBool False) None rest \<and>
   Decode h c (ettAtomUTF8 # 0 # 4 # bTrue @ rest) = Return (TBool True) None rest \<and>
   Decode h c (ettAtomUTF8 # 0 # 5 # bFalse @ rest) = Return (TBool False) None rest \<and>
   newAtom a \<noteq> TAtom bTrue \<and> newAtom a \<noteq> TAtom bFalse"
proof -
  have w: "snd (writeBool b) = None"
    by (simp add: writeBool_def Write_def)
  have d: "Decode h c (fst (writeBool b) @ rest) = Return (TBool b) None rest"
    using Decode_writeAtom [of "if b then bTrue else bFalse" h c rest]
    by (simp add: writeBool_eq)
  have e: "Encode (VBool b) = (EtVersion # fst (writeBool b), None)"
    by (cases b) (simp_all add: Encode_def writeBool_def Write_def)
  have small: "Decode h c (t # 4 # bTrue @ rest) = Return (TBool True) None rest"
    "Decode h c (t # 5 # bFalse @ rest) = Return (TBool False) None rest"
    if "t = ettSmallAtom \<or> t = ettSmallAtomUTF8" for t
    using that Decode_ettSmallAtom_bytes [of bTrue rest] Decode_ettSmallAtom_bytes [of bFalse rest]
    by (auto simp: Decode_leaf)
  have large: "Decode h c (t # 0 # 4 # bTrue @ rest) = Return (TBool True) None rest"
    "Decode h c (t # 0 # 5 # bFalse @ rest) = Return (TBool False) None rest"
    if "t = ettAtom \<or> t = ettAtomUTF8" for t
    using that
    by (auto simp: Decode_leaf Decode_ettAtom_def buint16_def ruint16_def ReadFull_def)
  have t: "Encode (VBool True) = ([131, 115, 4, 116, 114, 117, 101], None)"
    by (simp add: Encode_def writeBool_def Write_def)
  have n: "newAtom a \<noteq> TAtom bTrue \<and> newAtom a \<noteq> TAtom bFalse"
    by (simp add: newAtom_def)
  show ?thesis
    using w d e t n small [of ettSmallAtom] small [of ettSmallAtomUTF8]
      large [of ettAtom] large [of ettAtomUTF8] write_Bool_eq [of b]
    by simp
qed

section \<open>Big integers\<close>

text \<open>
  \<open>Bytes\<close> is the shortest big-endian magnitude: it reads back as the number, and its
  first byte is not zero. The swap loop of \<open>readBigInt\<close> reverses the buffer.
\<close>

lemma Bytes_0 [simp]: "Bytes 0 = []"
  by (simp add: Bytes.simps)

lemma Bytes_pos: "0 < n \<Longrightarrow> Bytes n = Bytes (n div 256) @ [of_nat (n mod 256)]"
  by (subst Bytes.simps) simp

lemma Bytes_eq_Nil_iff: "(Bytes n = []) = (n = 0)"
  by (subst Bytes.simps) simp

lemma SetBytes_snoc: "SetBytes (xs @ [x]) = SetBytes xs * 256 + uint x"
  by (simp add: SetBytes_def)

lemma uint_byte_mod: "uint (of_nat (n mod 256) :: byte) = int (n mod 256)"
  by (simp add: uint_word_of_int unsigned_of_nat take_bit_eq_mod)

lemma SetBytes_Bytes: "SetBytes (Bytes n) = int n"
proof (induction n rule: Bytes.induct)
  case (1 n)
  show ?case
  proof (cases "n = 0")
    case True
    then show ?thesis by (simp add: SetBytes_def)
  next
    case False
    then have "SetBytes (Bytes n) = int (n div 256) * 256 + int (n mod 256)"
      using 1 by (simp add: Bytes_pos SetBytes_snoc uint_byte_mod)
    then show ?thesis by (simp add: zdiv_int zmod_int)
  qed
qed

lemma length_Bytes_le: "n < 256 ^ k \<Longrightarrow> length (Bytes n) \<le> k"
proof (induction k arbitrary: n)
  case 0
  then show ?case by simp
next
  case (Suc k)
  show ?case
  proof (cases "n = 0")
    case True
    then show ?thesis by simp
  next
    case False
    have "n div 256 < 256 ^ k"
      using Suc.prems by (simp add: less_mult_imp_div_less mult.commute)
    then have "length (Bytes (n div 256)) \<le> k" by (rule Suc.IH)
    with False show ?thesis by (simp add: Bytes_pos)
  qed
qed

lemma length_Bytes_pow: "length (Bytes (256 ^ k)) = Suc k"
proof (induction k)
  case 0
  then show ?case by (simp add: Bytes_pos)
next
  case (Suc k)
  have "Bytes (256 ^ Suc k) = Bytes (256 ^ k) @ [of_nat ((256 ^ Suc k) mod 256)]"
    by (subst Bytes_pos) simp_all
  with Suc show ?case by simp
qed

lemma Bytes_hd_nonzero: "n \<noteq> 0 \<Longrightarrow> hd (Bytes n) \<noteq> 0"
proof (induction n rule: Bytes.induct)
  case (1 n)
  show ?case
  proof (cases "n div 256 = 0")
    case True
    with 1 have n: "0 < n" "n < 256" by (auto simp: div_eq_0_iff)
    then have "Bytes n = [of_nat n]" using True by (simp add: Bytes_pos)
    moreover have "unat (of_nat n :: byte) = n" using n by (simp add: unat_of_nat)
    then have "(of_nat n :: byte) \<noteq> 0" using n by auto
    ultimately show ?thesis by simp
  next
    case False
    then have "Bytes (n div 256) \<noteq> []" by (simp add: Bytes_eq_Nil_iff)
    moreover have "hd (Bytes (n div 256)) \<noteq> 0" using 1 False by simp
    ultimately show ?thesis using 1(2) by (simp add: Bytes_pos)
  qed
qed

lemma le_value_rev_Bytes: "le_value (rev (Bytes n)) = n"
proof (induction n rule: Bytes.induct)
  case (1 n)
  show ?case
  proof (cases "n = 0")
    case True
    then show ?thesis by (simp add: le_value_def)
  next
    case False
    have "(unat (of_nat (n mod 256) :: byte)) = n mod 256"
      by (simp add: unat_of_nat)
    then have "le_value (rev (Bytes n)) = n mod 256 + 256 * (n div 256)"
      using 1 False by (simp add: Bytes_pos le_value_def)
    then show ?thesis by simp
  qed
qed

lemma last_rev_Bytes: "rev (Bytes n) \<noteq> [] \<Longrightarrow> last (rev (Bytes n)) \<noteq> 0"
  using Bytes_hd_nonzero [of n] by (simp add: Bytes_eq_Nil_iff last_rev)

lemma length_swap_loop [simp]: "length (swap_loop k i b) = length b"
  by (induction k arbitrary: i b) simp_all

lemma swap_loop_nth:
  "i + k \<le> length b div 2 \<Longrightarrow> j < length b \<Longrightarrow>
   swap_loop k i b ! j =
     (if (i \<le> j \<and> j < i + k) \<or> (length b - (i + k) \<le> j \<and> j < length b - i)
      then b ! (length b - j - 1) else b ! j)"
proof (induction k arbitrary: i b)
  case 0
  then show ?case by auto
next
  case (Suc k)
  let ?n = "length b"
  let ?b = "b[i := b ! (?n - i - 1), ?n - i - 1 := b ! i]"
  let ?inner = "(Suc i \<le> j \<and> j < Suc i + k) \<or> (?n - (Suc i + k) \<le> j \<and> j < ?n - Suc i)"
  let ?outer = "(i \<le> j \<and> j < i + Suc k) \<or> (?n - (i + Suc k) \<le> j \<and> j < ?n - i)"
  have bound: "2 * i + 2 * k + 2 \<le> ?n" using Suc.prems(1) by linarith
  have step: "swap_loop (Suc k) i b ! j = swap_loop k (Suc i) ?b ! j" by simp
  have ih: "swap_loop k (Suc i) ?b ! j = (if ?inner then ?b ! (?n - j - 1) else ?b ! j)"
    using Suc.IH [of "Suc i" ?b] Suc.prems by simp
  consider "j = i" | "j = ?n - i - 1" | "j \<noteq> i" "j \<noteq> ?n - i - 1" by blast
  then have "swap_loop k (Suc i) ?b ! j = (if ?outer then b ! (?n - j - 1) else b ! j)"
  proof cases
    case 1
    have c: "\<not> ?inner" using 1 bound by linarith
    have o: "?outer" using 1 by linarith
    have "i \<noteq> ?n - i - 1" "i < ?n" using bound by linarith+
    then have "?b ! j = b ! (?n - j - 1)" using 1 by simp
    then show ?thesis using c o ih by presburger
  next
    case 2
    have c: "\<not> ?inner" using 2 bound by linarith
    have o: "?outer" using 2 bound by linarith
    have "?n - i - 1 < ?n" using bound by linarith
    then have "?b ! (?n - i - 1) = b ! i" by simp
    moreover have "?n - (?n - i - 1) - 1 = i" using bound by linarith
    ultimately have "?b ! j = b ! (?n - j - 1)" using 2 by presburger
    then show ?thesis using c o ih by presburger
  next
    case 3
    have a: "?n - j - 1 \<noteq> i" "?n - j - 1 \<noteq> ?n - i - 1"
      using 3 Suc.prems(2) bound by linarith+
    have "?b ! j = b ! j" using 3 by simp
    moreover have "?b ! (?n - j - 1) = b ! (?n - j - 1)" using a by simp
    moreover have "?inner = ?outer" using 3 bound by linarith
    ultimately show ?thesis using ih by presburger
  qed
  with step show ?case by presburger
qed

lemma swap_loop_rev: "swap_loop (length b div 2) 0 b = rev b"
proof (rule nth_equalityI)
  show "length (swap_loop (length b div 2) 0 b) = length (rev b)" by simp
next
  fix j assume "j < length (swap_loop (length b div 2) 0 b)"
  then have j: "j < length b" by simp
  have "swap_loop (length b div 2) 0 b ! j = b ! (length b - j - 1)"
  proof (cases "j < length b div 2 \<or> length b - length b div 2 \<le> j")
    case True
    then show ?thesis using swap_loop_nth [of 0 "length b div 2" b j] j by auto
  next
    case False
    then have "j = length b - j - 1" using j by linarith
    then show ?thesis using swap_loop_nth [of 0 "length b div 2" b j] j False by auto
  qed
  then show "swap_loop (length b div 2) 0 b ! j = rev b ! j"
    using j by (simp add: rev_nth)
qed

lemma write_reverse_eq: "write_reverse b = rev b"
  by (rule nth_equalityI) (simp_all add: write_reverse_def rev_nth)

lemma big_Int64_eq: "big_Int64 v = word_of_int v"
  by (cases "v < 0") (simp_all add: big_Int64_def Let_def)

lemma toInt_64: "toInt Bits64 (big_Int64 v) = signed_take_bit 63 v"
  by (simp add: toInt_def big_Int64_eq sint_sbintrunc')

lemma toInt_32: "toInt Bits32 (big_Int64 v) = signed_take_bit 31 v"
  by (simp add: toInt_def big_Int64_eq sint_ucast_64_32 sint_sbintrunc')

lemma sint_big_Int64: "sint (big_Int64 v) = signed_take_bit 63 v"
  by (simp add: big_Int64_eq sint_sbintrunc')

lemma fits_iff: "0 < w \<Longrightarrow> fits w z = (signed_take_bit (w - 1) z = z)"
  by (auto simp: fits_def signed_take_bit_int_eq_self_iff)

lemma toInt_eq_iff: "(v = toInt a (big_Int64 v)) = fits (arch_bits a) v"
  by (cases a) (auto simp: toInt_64 toInt_32 arch_bits_def fits_iff)

lemma sint_big_eq_iff: "(v = sint (big_Int64 v)) = fits 64 v"
  by (auto simp: sint_big_Int64 fits_iff)

lemma readBigInt_bytes:
  "readBigInt h (bs @ rest) (replicate (length bs) 0) sign
   = Return (narrow (intSize h) (if sign \<noteq> 0 then - SetBytes (rev bs) else SetBytes (rev bs)))
       None rest"
proof -
  let ?v = "if sign \<noteq> 0 then - SetBytes (rev bs) else SetBytes (rev bs)"
  have "readBigInt h (bs @ rest) (replicate (length bs) 0) sign =
     (if ?v = toInt (intSize h) (big_Int64 ?v) then Return (TInt (toInt (intSize h) (big_Int64 ?v))) None rest
      else if ?v = sint (big_Int64 ?v) then Return (TInt64 (sint (big_Int64 ?v))) None rest
      else Return (TBigInt ?v) None rest)"
    by (simp add: readBigInt_def swap_loop_rev Let_def)
  also have "\<dots> = Return (narrow (intSize h) ?v) None rest"
    using toInt_eq_iff [of ?v "intSize h"] sint_big_eq_iff [of ?v]
    by (auto simp: narrow_def simp del: toInt_eq_iff sint_big_eq_iff)
  finally show ?thesis .
qed

lemma writeBigInt_small:
  "length (Bytes (nat \<bar>z\<bar>)) \<le> 255 \<Longrightarrow>
   writeBigInt z = (ettSmallBig # of_nat (length (Bytes (nat \<bar>z\<bar>))) # (if z < 0 then 1 else 0)
                     # rev (Bytes (nat \<bar>z\<bar>)), None)"
  by (simp add: writeBigInt_def reverse_def Let_def Write_def)

lemma writeBigInt_large:
  "255 < length (Bytes (nat \<bar>z\<bar>)) \<Longrightarrow> length (Bytes (nat \<bar>z\<bar>)) \<le> 4294967295 \<Longrightarrow>
   writeBigInt z =
     (ettLargeBig # of_nat (drop_bit 24 (length (Bytes (nat \<bar>z\<bar>))))
        # of_nat (drop_bit 16 (length (Bytes (nat \<bar>z\<bar>))))
        # of_nat (drop_bit 8 (length (Bytes (nat \<bar>z\<bar>))))
        # of_nat (length (Bytes (nat \<bar>z\<bar>))) # (if z < 0 then 1 else 0)
        # rev (Bytes (nat \<bar>z\<bar>)), None)"
  by (simp add: writeBigInt_def reverse_def Let_def Write_def)

lemma writeBigInt_too_big:
  "4294967295 < length (Bytes (nat \<bar>z\<bar>)) \<Longrightarrow>
   writeBigInt z = ([], Some (ErrBigIntSize (length (Bytes (nat \<bar>z\<bar>)))))"
  by (simp add: writeBigInt_def reverse_def Let_def)

lemma signed_magnitude: "(if (if z < 0 then 1 else 0 :: byte) \<noteq> 0 then - int (nat \<bar>z\<bar>) else int (nat \<bar>z\<bar>)) = z"
  by simp

lemma Decode_writeBigInt:
  assumes "length (Bytes (nat \<bar>z\<bar>)) \<le> 4294967295"
  shows "snd (writeBigInt z) = None \<and>
         Decode h c (fst (writeBigInt z) @ rest) = Return (narrow (intSize h) z) None rest"
proof (cases "length (Bytes (nat \<bar>z\<bar>)) \<le> 255")
  case True
  let ?bs = "rev (Bytes (nat \<bar>z\<bar>))"
  have "Decode_ettSmallBig h (of_nat (length ?bs) # (if z < 0 then 1 else 0) # ?bs @ rest)
        = Return (narrow (intSize h) z) None rest"
    using True readBigInt_bytes [of h ?bs rest "if z < 0 then 1 else 0"]
    by (simp add: Decode_ettSmallBig_def unat_byte_of_nat SetBytes_Bytes)
  with True show ?thesis
    by (simp add: writeBigInt_small Decode_leaf)
next
  case False
  let ?bs = "rev (Bytes (nat \<bar>z\<bar>))"
  let ?n = "length ?bs"
  have n: "unat (be_Uint32 [of_nat (drop_bit 24 ?n), of_nat (drop_bit 16 ?n), of_nat (drop_bit 8 ?n), of_nat ?n]) = ?n"
    using assms by (simp add: be_Uint32_of_nat unat_uint32_of_nat del: be_Uint32.simps)
  have "Decode_ettLargeBig h (of_nat (drop_bit 24 ?n) # of_nat (drop_bit 16 ?n) # of_nat (drop_bit 8 ?n)
          # of_nat ?n # (if z < 0 then 1 else 0) # ?bs @ rest)
        = Return (narrow (intSize h) z) None rest"
    using n readBigInt_bytes [of h ?bs rest "if z < 0 then 1 else 0"]
    by (simp add: Decode_ettLargeBig_def SetBytes_Bytes del: be_Uint32.simps)
  with False assms show ?thesis
    by (simp add: writeBigInt_large Decode_leaf)
qed

lemma narrow_value: "term_int (narrow a z) = Some z"
  by (simp add: narrow_def)

text \<open>
  C3 (amended). For every big integer \<open>z\<close> whose magnitude takes at most \<open>2^32 - 1\<close>
  bytes, \<open>writeBigInt\<close> succeeds: it writes the header (tag, length, sign byte \<open>0\<close>
  for a non-negative and \<open>1\<close> for a negative number) and then the magnitude of
  \<open>\<bar>z\<bar>\<close> in little-endian order with no most significant zero byte. Decoding these
  bytes, whatever follows them, returns \<open>z\<close> narrowed: as the native \<open>int\<close> when it
  fits, else as \<open>int64\<close> when it fits 64 bits, else as the big integer; the value is
  \<open>z\<close> in each case.
\<close>

theorem writeBigInt_roundtrip:
  assumes "length (Bytes (nat \<bar>z\<bar>)) \<le> 4294967295"
  shows "(let mag = rev (Bytes (nat \<bar>z\<bar>)); sign = (if z < 0 then 1 else 0) in
            writeBigInt z =
              ((if length mag \<le> 255 then [ettSmallBig, of_nat (length mag), sign]
                else [ettLargeBig, of_nat (drop_bit 24 (length mag)), of_nat (drop_bit 16 (length mag)),
                      of_nat (drop_bit 8 (length mag)), of_nat (length mag), sign]) @ mag, None) \<and>
            le_value mag = nat \<bar>z\<bar> \<and> (mag = [] \<or> last mag \<noteq> 0)) \<and>
         Decode h c (fst (writeBigInt z) @ rest) = Return (narrow (intSize h) z) None rest \<and>
         term_int (narrow (intSize h) z) = Some z"
proof -
  have enc: "writeBigInt z =
      ((if length (rev (Bytes (nat \<bar>z\<bar>))) \<le> 255
        then [ettSmallBig, of_nat (length (rev (Bytes (nat \<bar>z\<bar>)))), if z < 0 then 1 else 0]
        else [ettLargeBig, of_nat (drop_bit 24 (length (rev (Bytes (nat \<bar>z\<bar>))))),
              of_nat (drop_bit 16 (length (rev (Bytes (nat \<bar>z\<bar>))))),
              of_nat (drop_bit 8 (length (rev (Bytes (nat \<bar>z\<bar>))))),
              of_nat (length (rev (Bytes (nat \<bar>z\<bar>)))), if z < 0 then 1 else 0])
       @ rev (Bytes (nat \<bar>z\<bar>)), None)"
    using assms by (simp add: writeBigInt_small writeBigInt_large)
  have mag: "le_value (rev (Bytes (nat \<bar>z\<bar>))) = nat \<bar>z\<bar>"
    by (rule le_value_rev_Bytes)
  have minimal: "rev (Bytes (nat \<bar>z\<bar>)) = [] \<or> last (rev (Bytes (nat \<bar>z\<bar>))) \<noteq> 0"
    using last_rev_Bytes [of "nat \<bar>z\<bar>"] by blast
  have dec: "Decode h c (fst (writeBigInt z) @ rest) = Return (narrow (intSize h) z) None rest"
    using Decode_writeBigInt [OF assms] by simp
  show ?thesis
    unfolding Let_def using enc mag minimal dec narrow_value by blast
qed

lemma Bytes_5: "Bytes 5 = [5]"
  by (simp add: Bytes.simps)

theorem writeBigInt_roundtrip_witness:
  "length (Bytes (nat \<bar>- 5\<bar>)) \<le> 4294967295 \<and>
   writeBigInt (- 5) = ([ettSmallBig, 1, 1, 5], None) \<and>
   Decode host64 newContext (fst (writeBigInt (- 5))) = Return (TInt (- 5)) None []"
proof -
  have h: "length (Bytes (nat \<bar>- 5\<bar>)) \<le> 4294967295"
    by (simp add: Bytes_5)
  show ?thesis
    using h writeBigInt_roundtrip [OF h, of host64 newContext "[]"]
    by (auto simp: Bytes_5 narrow_def fits_def arch_bits_def host64_def Let_def)
qed

text \<open>
  The claim as stated, for every big integer, fails at a magnitude of \<open>2^32\<close> bytes:
  the writer returns the size error and writes nothing, so there is no encoding to
  decode.
\<close>

lemma writeBigInt_pow_too_big:
  "4294967295 \<le> k \<Longrightarrow> writeBigInt (256 ^ k) = ([], Some (ErrBigIntSize (Suc k)))"
proof -
  assume k: "4294967295 \<le> k"
  have "nat \<bar>(256::int) ^ k\<bar> = 256 ^ k"
    by (simp add: nat_power_eq)
  then have "length (Bytes (nat \<bar>(256::int) ^ k\<bar>)) = Suc k"
    by (simp only: length_Bytes_pow)
  then show ?thesis
    using k writeBigInt_too_big [of "256 ^ k"] by simp
qed

theorem writeBigInt_counterexample:
  "fst (writeBigInt (256 ^ 4294967295)) = [] \<and>
   snd (writeBigInt (256 ^ 4294967295)) = Some (ErrBigIntSize (Suc 4294967295)) \<and>
   Decode host64 newContext (fst (writeBigInt (256 ^ 4294967295))) = Return TNil (Some EOF) []"
  by (simp only: writeBigInt_pow_too_big [OF order_refl] fst_conv snd_conv Decode_Nil simp_thms)

section \<open>Integers\<close>

lemma write_BigInt_small:
  "length (Bytes (nat \<bar>z\<bar>)) \<le> 255 \<Longrightarrow> write_BigInt a z = writeBigInt z"
  by (simp add: write_BigInt_def writeBigInt_def write_reverse_eq reverse_def Let_def)

lemma sint_abs_bound: "nat \<bar>sint (x :: int64)\<bar> < 256 ^ 8"
proof -
  have "- (2 ^ 63) \<le> sint x" "sint x < 2 ^ 63"
    using sint_range_size [of x] by (simp_all add: word_size)
  then show ?thesis by simp
qed

lemma length_Bytes_int64: "length (Bytes (nat \<bar>sint (x :: int64)\<bar>)) \<le> 8"
  using sint_abs_bound by (rule length_Bytes_le)

lemma uint_ucast_byte:
  "0 \<le> sint (x :: int64) \<Longrightarrow> sint x \<le> 255 \<Longrightarrow> uint (ucast x :: byte) = sint x"
proof -
  assume a: "0 \<le> sint x" "sint x \<le> 255"
  have "uint x = take_bit 64 (sint x)"
    using uint_sint [of x] by simp
  then have u: "uint x = sint x"
    using a by (simp add: take_bit_int_eq_self)
  have "uint (ucast x :: byte) = take_bit 8 (uint x)"
    by (simp add: unsigned_ucast_eq)
  then show ?thesis
    using a u by (simp add: take_bit_int_eq_self)
qed

lemma ucast_byte_via_int32: "(ucast (signed_drop_bit k (ucast x :: int32)) :: byte) = ucast (signed_drop_bit k (x :: int64))"
  if "k \<le> 24"
proof (rule bit_word_eqI)
  fix n assume "n < LENGTH(8)"
  then show "bit (ucast (signed_drop_bit k (ucast x :: int32)) :: byte) n
             = bit (ucast (signed_drop_bit k x) :: byte) n"
    using that by (auto simp: bit_simps)
qed

text \<open>
  C4. For every \<open>int64\<close> \<open>x\<close> given to \<open>writeInt\<close> (and to \<open>write.Int64\<close>, which
  writes the same bytes): if \<open>0 \<le> x \<le> 255\<close> the term is the SMALL_INTEGER tag and
  the byte \<open>x\<close> (two bytes); else if \<open>x\<close> fits 32 signed bits it is the INTEGER tag
  and four bytes that read big-endian as \<open>x\<close> (five bytes); otherwise it is what
  \<open>writeBigInt\<close> writes, which for an \<open>int64\<close> always carries the SMALL_BIG tag.
\<close>

theorem writeInt_tag_selection:
  fixes x :: int64
  shows
  "(0 \<le> sint x \<and> sint x \<le> 255 \<longrightarrow>
      writeInt x = ([ettSmallInteger, ucast x], None) \<and> uint (ucast x :: byte) = sint x \<and>
      write_Int64 a x = writeInt x) \<and>
   (\<not> (0 \<le> sint x \<and> sint x \<le> 255) \<and> - 2147483648 \<le> sint x \<and> sint x \<le> 2147483647 \<longrightarrow>
      (\<exists>b0 b1 b2 b3. writeInt x = ([ettInteger, b0, b1, b2, b3], None) \<and>
                      sint (be_Uint32 [b0, b1, b2, b3]) = sint x) \<and>
      write_Int64 a x = writeInt x) \<and>
   (sint x < - 2147483648 \<or> 2147483647 < sint x \<longrightarrow>
      writeInt x = writeBigInt (sint x) \<and>
      (\<exists>bs. writeInt x = (ettSmallBig # bs, None)) \<and>
      write_Int64 a x = writeInt x)"
proof (intro conjI impI)
  assume s: "0 \<le> sint x \<and> sint x \<le> 255"
  then show "writeInt x = ([ettSmallInteger, ucast x], None)"
    by (simp add: writeInt_def Write_def)
  from s show "uint (ucast x :: byte) = sint x"
    by (simp add: uint_ucast_byte)
  from s show "write_Int64 a x = writeInt x"
    by (simp add: writeInt_def write_Int64_def)
next
  assume m: "\<not> (0 \<le> sint x \<and> sint x \<le> 255) \<and> - 2147483648 \<le> sint x \<and> sint x \<le> 2147483647"
  let ?x32 = "ucast x :: int32"
  have w: "writeInt x = ([ettInteger, ucast (signed_drop_bit 24 ?x32), ucast (signed_drop_bit 16 ?x32),
                          ucast (signed_drop_bit 8 ?x32), ucast ?x32], None)"
    using m by (simp add: writeInt_def Write_def Let_def)
  have "sint (be_Uint32 [ucast (signed_drop_bit 24 ?x32), ucast (signed_drop_bit 16 ?x32),
                         ucast (signed_drop_bit 8 ?x32), ucast ?x32]) = sint x"
    using m by (simp only: be_Uint32_signed_bytes sint_ucast_32)
  with w show "\<exists>b0 b1 b2 b3. writeInt x = ([ettInteger, b0, b1, b2, b3], None) \<and>
                      sint (be_Uint32 [b0, b1, b2, b3]) = sint x"
    by blast
  have "write_Int64 a x = ([ettInteger, ucast (signed_drop_bit 24 x), ucast (signed_drop_bit 16 x),
                          ucast (signed_drop_bit 8 x), ucast x], None)"
    using m scast_ucast_iff [of x] by (simp add: write_Int64_def Write_def)
  then show "write_Int64 a x = writeInt x"
    using w ucast_byte_via_int32 [of 24 x] ucast_byte_via_int32 [of 16 x]
      ucast_byte_via_int32 [of 8 x] ucast_byte_via_int32 [of 0 x]
    by simp
next
  assume b: "sint x < - 2147483648 \<or> 2147483647 < sint x"
  then show w: "writeInt x = writeBigInt (sint x)"
    by (auto simp: writeInt_def)
  have "length (Bytes (nat \<bar>sint x\<bar>)) \<le> 255"
    using length_Bytes_int64 [of x] by simp
  then show "\<exists>bs. writeInt x = (ettSmallBig # bs, None)"
    using w by (simp add: writeBigInt_small)
  from b scast_ucast_iff [of x] have "(scast (ucast x :: int32) :: int64) \<noteq> x"
    by auto
  moreover have "\<not> (0 \<le> sint x \<and> sint x \<le> 255)" using b by auto
  ultimately show "write_Int64 a x = writeInt x"
    using w write_BigInt_small [of "sint x" a] length_Bytes_int64 [of x]
    by (auto simp: write_Int64_def)
qed

theorem writeInt_tag_selection_witness:
  "writeInt 42 = ([ettSmallInteger, 42], None) \<and>
   (\<exists>b0 b1 b2 b3. writeInt 300 = ([ettInteger, b0, b1, b2, b3], None) \<and>
                   sint (be_Uint32 [b0, b1, b2, b3]) = 300) \<and>
   writeInt 2147483648 = writeBigInt 2147483648 \<and>
   (\<exists>bs. writeInt (- 2147483649) = (ettSmallBig # bs, None))"
  using writeInt_tag_selection [of 42 Bits64] writeInt_tag_selection [of 300 Bits64]
    writeInt_tag_selection [of 2147483648 Bits64]
    writeInt_tag_selection [of "- 2147483649" Bits64]
  by (auto simp del: be_Uint32.simps) metis

text \<open>
  Every \<open>int64\<close> written by \<open>writeInt\<close> is read back as a term that stands for the
  same number (the round trip of the repository's \<open>TestWriteInt\<close>).
\<close>

lemma Decode_writeInt:
  "\<exists>t. Decode h c (fst (writeInt x) @ rest) = Return t None rest \<and> term_int t = Some (sint x)"
proof -
  consider "0 \<le> sint x \<and> sint x \<le> 255"
    | "\<not> (0 \<le> sint x \<and> sint x \<le> 255)" "- 2147483648 \<le> sint x \<and> sint x \<le> 2147483647"
    | "sint x < - 2147483648 \<or> 2147483647 < sint x"
    by linarith
  then show ?thesis
  proof cases
    case 1
    then have "Decode h c (fst (writeInt x) @ rest) = Return (TInt (sint x)) None rest"
      by (simp add: writeInt_def Write_def Decode_leaf Decode_ettSmallInteger_def uint_ucast_byte)
    then show ?thesis by simp
  next
    case 2
    let ?x32 = "ucast x :: int32"
    have "sint (be_Uint32 [ucast (signed_drop_bit 24 ?x32), ucast (signed_drop_bit 16 ?x32),
                           ucast (signed_drop_bit 8 ?x32), ucast ?x32]) = sint x"
      using 2 by (simp only: be_Uint32_signed_bytes sint_ucast_32)
    then have "Decode h c (fst (writeInt x) @ rest) = Return (TInt (sint x)) None rest"
      using 2
      by (auto simp: writeInt_def Write_def Let_def Decode_leaf Decode_ettInteger_def
            simp del: be_Uint32.simps)
    then show ?thesis by simp
  next
    case 3
    have "length (Bytes (nat \<bar>sint x\<bar>)) \<le> 4294967295"
      using length_Bytes_int64 [of x] by simp
    then have "Decode h c (fst (writeBigInt (sint x)) @ rest)
               = Return (narrow (intSize h) (sint x)) None rest"
      by (simp add: Decode_writeBigInt)
    moreover have "writeInt x = writeBigInt (sint x)"
      using 3 by (auto simp: writeInt_def)
    ultimately show ?thesis by (simp add: narrow_value)
  qed
qed

section \<open>Process identifiers\<close>

lemma Decode_fuel_writeAtom:
  assumes "length a \<le> 65535"
  shows "Decode_fuel (Suc k) h c (fst (writeAtom a) @ rest) = Return (newAtom a) None rest"
proof (cases "length a \<le> 255")
  case True
  then show ?thesis
    by (simp add: writeAtom_small Decode_step_def Decode_ettSmallAtom_bytes)
next
  case False
  with assms show ?thesis
    by (simp add: writeAtom_large Decode_step_def Decode_ettAtom_bytes)
qed

lemma Decode_ettPid_step: "Decode h c (ettPid # r) = Decode_ettPid (Decode_fuel (Suc (length r)) h c) r"
  by (simp add: Decode_def Decode_step_def)

lemma writeAtom_ok: "length a \<le> 65535 \<Longrightarrow> snd (writeAtom a) = None"
  by (cases "length a \<le> 255") (simp_all add: writeAtom_small writeAtom_large)

lemma writePid_bytes:
  "length (Node p) \<le> 65535 \<Longrightarrow>
   writePid p = (ettPid # fst (writeAtom (Node p)) @
                  [0, 0, ucast (drop_bit 8 (Id p)), ucast (Id p),
                   ucast (drop_bit 24 (Serial p)), ucast (drop_bit 16 (Serial p)),
                   ucast (drop_bit 8 (Serial p)), ucast (Serial p), Creation p], None)"
  using writeAtom_ok [of "Node p"]
  by (cases "writeAtom (Node p)") (simp add: writePid_def Write_def)

text \<open>
  C10 (amended). For every Pid \<open>p\<close> whose node atom has at most 65535 bytes and is not
  the text \<open>true\<close> or \<open>false\<close>: \<open>writePid\<close> succeeds, writing the tag, the atom,
  two zero bytes, the low two bytes of \<open>Id\<close>, \<open>Serial\<close> and \<open>Creation\<close>; decoding
  these bytes returns a Pid with the same \<open>Node\<close>, \<open>Serial\<close> and \<open>Creation\<close> and
  with \<open>Id\<close> reduced modulo \<open>2^16\<close>, so a Pid with \<open>Id \<le> 65535\<close> comes back
  unchanged.
\<close>

theorem writePid_roundtrip:
  assumes "length (Node p) \<le> 65535" and "Node p \<noteq> bTrue" and "Node p \<noteq> bFalse"
  shows "writePid p = (ettPid # fst (writeAtom (Node p)) @
                  [0, 0, ucast (drop_bit 8 (Id p)), ucast (Id p),
                   ucast (drop_bit 24 (Serial p)), ucast (drop_bit 16 (Serial p)),
                   ucast (drop_bit 8 (Serial p)), ucast (Serial p), Creation p], None) \<and>
         Decode h c (fst (writePid p) @ rest)
           = Return (TPid (p\<lparr>Id := take_bit 16 (Id p)\<rparr>)) None rest \<and>
         unat (take_bit 16 (Id p)) = unat (Id p) mod 2 ^ 16 \<and>
         (unat (Id p) \<le> 65535 \<longrightarrow>
            Decode h c (fst (writePid p) @ rest) = Return (TPid p) None rest)"
proof -
  let ?tail = "[0, 0, ucast (drop_bit 8 (Id p)), ucast (Id p),
                   ucast (drop_bit 24 (Serial p)), ucast (drop_bit 16 (Serial p)),
                   ucast (drop_bit 8 (Serial p)), ucast (Serial p), Creation p]"
  have w: "writePid p = (ettPid # fst (writeAtom (Node p)) @ ?tail, None)"
    using assms(1) by (rule writePid_bytes)
  have node: "Decode_fuel (Suc k) h c (fst (writeAtom (Node p)) @ ?tail @ rest)
              = Return (TAtom (Node p)) None (?tail @ rest)" for k
    using Decode_fuel_writeAtom [OF assms(1), of k h c "?tail @ rest"] assms(2,3)
    by (simp add: newAtom_TAtom)
  have "Decode h c (fst (writePid p) @ rest)
        = Decode_ettPid (Decode_fuel (Suc (length (fst (writeAtom (Node p)) @ ?tail @ rest))) h c)
            (fst (writeAtom (Node p)) @ ?tail @ rest)"
    using w Decode_ettPid_step [of h c "fst (writeAtom (Node p)) @ ?tail @ rest"] by simp
  also have "\<dots> = Return (TPid \<lparr>Node = Node p, Id = take_bit 16 (Id p), Serial = Serial p,
                                 Creation = Creation p\<rparr>) None rest"
    unfolding Decode_ettPid_def node
    using be_Uint32_pid [of "Id p"] be_Uint32_bytes [of "Serial p"]
    by (simp add: ReadFull_def del: be_Uint32.simps)
  also have "\<lparr>Node = Node p, Id = take_bit 16 (Id p), Serial = Serial p, Creation = Creation p\<rparr>
             = p\<lparr>Id := take_bit 16 (Id p)\<rparr>"
    by simp
  finally have d: "Decode h c (fst (writePid p) @ rest)
        = Return (TPid (p\<lparr>Id := take_bit 16 (Id p)\<rparr>)) None rest" .
  have m: "unat (take_bit 16 (Id p)) = unat (Id p) mod 2 ^ 16"
    by (simp add: unat_take_bit_16)
  have "take_bit 16 (Id p) = Id p" if "unat (Id p) \<le> 65535"
    using that m by (simp add: word_unat_eq_iff)
  then have e: "unat (Id p) \<le> 65535 \<longrightarrow>
            Decode h c (fst (writePid p) @ rest) = Return (TPid p) None rest"
    using d by simp
  show ?thesis using w d m e by blast
qed

theorem writePid_roundtrip_witness:
  "length [111, 107 :: byte] \<le> 65535 \<and>
   Decode host64 newContext (fst (writePid \<lparr>Node = [111, 107], Id = 65574, Serial = 7, Creation = 3\<rparr>))
     = Return (TPid \<lparr>Node = [111, 107], Id = 38, Serial = 7, Creation = 3\<rparr>) None []"
  using writePid_roundtrip [of "\<lparr>Node = [111, 107], Id = 65574, Serial = 7, Creation = 3\<rparr>"
      host64 newContext "[]", THEN conjunct2, THEN conjunct1]
  by simp

text \<open>
  The claim as stated, for every Pid, fails for a node named \<open>true\<close>: the atom is read
  back as a boolean and the assertion \<open>node.(Atom)\<close> panics. It also fails for a node
  of 65536 bytes, which \<open>writeAtom\<close> rejects after the tag has been written.
\<close>

theorem writePid_counterexample:
  "Decode host64 newContext (fst (writePid \<lparr>Node = bTrue, Id = 38, Serial = 0, Creation = 3\<rparr>))
     = Panic TypeAssertion \<and>
   writePid \<lparr>Node = replicate 65536 97, Id = 38, Serial = 0, Creation = 3\<rparr>
     = ([ettPid], Some (ErrAtomTooBig 65536))"
  by (simp add: writePid_def writeAtom_def Write_def Decode_ettPid_step Decode_ettPid_def
      Decode_step_def Decode_ettSmallAtom_def buint8_def ReadFull_def)

section \<open>Overflow in the typed decode bridge\<close>

lemma sign_extend_word:
  assumes "0 < w" "w \<le> 64"
  shows "signed_drop_bit (64 - w) (push_bit (64 - w) x)
         = (word_of_int (signed_take_bit (w - 1) (sint x)) :: int64)"
proof (cases "w = 64")
  case True
  have "signed_take_bit 63 (sint x) = sint x"
    using sint_ge [of x] sint_lt [of x] by (simp add: signed_take_bit_int_eq_self)
  with True show ?thesis by simp
next
  case False
  with assms have w: "0 < w" "w < 64" by simp_all
  show ?thesis
  proof (rule bit_word_eqI)
    fix n assume n: "n < LENGTH(64)"
    consider "n < w - 1" | "n = w - 1" | "w \<le> n" by linarith
    then show "bit (signed_drop_bit (64 - w) (push_bit (64 - w) x)) n
          = bit (word_of_int (signed_take_bit (w - 1) (sint x)) :: int64) n"
    proof cases
      case 1
      then show ?thesis using w n by (auto simp: bit_simps)
    next
      case 2
      then show ?thesis using w n by (auto simp: bit_simps)
    next
      case 3
      then show ?thesis using w n by (auto simp: bit_simps)
    qed
  qed
qed

lemma signed_take_bit_range_63:
  assumes "k \<le> 63"
  shows "- (2 ^ 63) \<le> signed_take_bit k (z :: int)" "signed_take_bit k z < 2 ^ 63"
proof -
  have a: "- (2 ^ k) \<le> signed_take_bit k z" "signed_take_bit k z < 2 ^ k"
    by (simp_all add: signed_take_bit_int_greater_eq_minus_exp signed_take_bit_int_less_exp)
  have "(2 :: int) ^ k \<le> 2 ^ 63"
    using assms by (intro power_increasing) simp_all
  with a show "- (2 ^ 63) \<le> signed_take_bit k z" "signed_take_bit k z < 2 ^ 63"
    by linarith+
qed

lemma OverflowInt_iff:
  assumes "0 < w" "w \<le> 64"
  shows "OverflowInt w x = (\<not> fits w (sint x))"
proof -
  let ?t = "signed_take_bit (w - 1) (sint x)"
  have r: "- (2 ^ 63) \<le> ?t" "?t < 2 ^ 63"
    using assms signed_take_bit_range_63 [of "w - 1" "sint x"] by simp_all
  have m: "min 63 (w - 1) = w - 1"
    using assms by linarith
  have "sint (word_of_int ?t :: int64) = signed_take_bit 63 ?t"
    by (simp add: sint_sbintrunc' del: signed_take_bit_signed_take_bit)
  also have "\<dots> = ?t"
    by (simp only: signed_take_bit_signed_take_bit m)
  finally have s: "sint (word_of_int ?t :: int64) = ?t" .
  have "(x = word_of_int ?t) = (sint x = ?t)"
  proof
    assume "x = word_of_int ?t"
    then have "sint x = sint (word_of_int ?t :: int64)" by simp
    with s show "sint x = ?t" by simp
  next
    assume "sint x = ?t"
    then have "word_of_int ?t = (word_of_int (sint x) :: int64)" by simp
    then show "x = word_of_int ?t" by simp
  qed
  then show ?thesis
    using assms sign_extend_word [OF assms, of x]
    by (auto simp: OverflowInt_def fits_iff)
qed

lemma OverflowUint_iff:
  assumes "0 < w" "w \<le> 64"
  shows "OverflowUint w x = (\<not> uint x < 2 ^ w)"
proof -
  have e: "drop_bit (64 - w) (push_bit (64 - w) x) = take_bit w x"
  proof (rule bit_word_eqI)
    fix n assume "n < LENGTH(64)"
    then show "bit (drop_bit (64 - w) (push_bit (64 - w) x)) n = bit (take_bit w x) n"
      using assms by (auto simp: bit_simps)
  qed
  have u: "uint (take_bit w x) = uint x mod 2 ^ w"
    unfolding unsigned_take_bit_eq by (simp add: take_bit_eq_mod)
  have "(uint x = uint x mod 2 ^ w) = (uint x < 2 ^ w)"
  proof
    assume "uint x = uint x mod 2 ^ w"
    moreover have "uint x mod 2 ^ w < 2 ^ w" by simp
    ultimately show "uint x < 2 ^ w" by simp
  next
    assume "uint x < 2 ^ w"
    then show "uint x = uint x mod 2 ^ w" by simp
  qed
  then have "(x = take_bit w x) = (uint x < 2 ^ w)"
    using u by (simp add: word_uint_eq_iff)
  then show ?thesis by (simp add: OverflowUint_def e)
qed


lemma int_bits_range: "0 < int_bits a k \<and> int_bits a k \<le> 64"
  by (cases a; cases k) (simp_all add: int_bits_def arch_bits_def)

lemma uint_bits_range: "0 < uint_bits a k \<and> uint_bits a k \<le> 64"
  by (cases a; cases k) (simp_all add: uint_bits_def arch_bits_def)

text \<open>
  C7. For every input that starts with the version byte and whose integer term parses
  without error: when the parsed value does not fit the signed target (of 8, 16, 32 or 64
  bits, or the native width), \<open>Decode\<close> into that target returns an
  \<open>OverflowError\<close> carrying the value and the target type, and stores nothing; when it
  fits, the value is stored and no error returned. The same holds for the unsigned
  targets with \<open>parseUint64\<close>. Decoding INTEGER \<open>-2^31\<close> into an \<open>int8\<close> is the
  witness.
\<close>

theorem Decode_ptr_integer_overflow:
  "(parseInt64 P b = (result, n, None) \<and> \<not> fits (int_bits a k) (sint result) \<longrightarrow>
      Decode_ptr P a (erlFormatVersion # b) (TyInt k)
        = Returned (Suc n) (Some (OverflowError (OInt result) (TyInt k))) Untouched) \<and>
   (parseInt64 P b = (result, n, None) \<and> fits (int_bits a k) (sint result) \<longrightarrow>
      Decode_ptr P a (erlFormatVersion # b) (TyInt k) = Returned (Suc n) None (StoreInt result)) \<and>
   (parseUint64 P b = (uresult, m, None) \<and> \<not> uint uresult < 2 ^ uint_bits a uk \<longrightarrow>
      Decode_ptr P a (erlFormatVersion # b) (TyUint uk)
        = Returned (Suc m) (Some (OverflowError (OUint uresult) (TyUint uk))) Untouched) \<and>
   (parseUint64 P b = (uresult, m, None) \<and> uint uresult < 2 ^ uint_bits a uk \<longrightarrow>
      Decode_ptr P a (erlFormatVersion # b) (TyUint uk) = Returned (Suc m) None (StoreUint uresult))"
  using int_bits_range [of a k] uint_bits_range [of a uk]
  by (simp add: Decode_ptr_def OverflowInt_iff OverflowUint_iff)

lemma example_parseInt64_min32:
  "parseInt64 exampleParsers [ettInteger, 128, 0, 0, 0] = (- 2147483648, 5, None)"
  by (simp add: exampleParsers_def example_parseInt64_def)

theorem Decode_ptr_integer_overflow_witness:
  "parseInt64 exampleParsers [ettInteger, 128, 0, 0, 0] = (- 2147483648, 5, None) \<and>
   \<not> fits (int_bits Bits64 KInt8) (sint (- 2147483648 :: int64)) \<and>
   Decode_ptr exampleParsers Bits64 [erlFormatVersion, ettInteger, 128, 0, 0, 0] (TyInt KInt8)
     = Returned 6 (Some (OverflowError (OInt (- 2147483648)) (TyInt KInt8))) Untouched \<and>
   parseUint64 exampleParsers [ettInteger, 0, 0, 1, 44] = (300, 5, None) \<and>
   Decode_ptr exampleParsers Bits64 [erlFormatVersion, ettInteger, 0, 0, 1, 44] (TyUint KUint8)
     = Returned 6 (Some (OverflowError (OUint 300) (TyUint KUint8))) Untouched \<and>
   Decode_ptr exampleParsers Bits64 [erlFormatVersion, ettInteger, 0, 0, 1, 44] (TyInt KInt16)
     = Returned 6 None (StoreInt 300)"
proof -
  have p: "parseInt64 exampleParsers [ettInteger, 128, 0, 0, 0] = (- 2147483648, 5, None)"
    by (rule example_parseInt64_min32)
  have q: "parseUint64 exampleParsers [ettInteger, 0, 0, 1, 44] = (300, 5, None)"
    by (simp add: exampleParsers_def example_parseUint64_def)
  have r: "parseInt64 exampleParsers [ettInteger, 0, 0, 1, 44] = (300, 5, None)"
    by (simp add: exampleParsers_def example_parseInt64_def)
  have f: "\<not> fits (int_bits Bits64 KInt8) (sint (- 2147483648 :: int64))"
    by (simp add: fits_def int_bits_def)
  have g: "fits (int_bits Bits64 KInt16) (sint (300 :: int64))"
    by (simp add: fits_def int_bits_def)
  have u: "\<not> uint (300 :: uint64) < 2 ^ uint_bits Bits64 KUint8"
    by (simp add: uint_bits_def)
  show ?thesis
    using p q r f g u
      Decode_ptr_integer_overflow [of exampleParsers "[ettInteger, 128, 0, 0, 0]" "- 2147483648" 5
        Bits64 KInt8 0 0 KUint8]
      Decode_ptr_integer_overflow [of exampleParsers "[ettInteger, 0, 0, 1, 44]" 300 5
        Bits64 KInt16 300 5 KUint8]
    by simp
qed

section \<open>The reader on malformed and unusual input\<close>

lemma decode_elems_numeral [simp]:
  "decode_elems dec (numeral k) s =
     (case dec s of
        Return t (Some e) r \<Rightarrow> Return [t] (Some e) r
      | Return t None r \<Rightarrow>
          (case decode_elems dec (pred_numeral k) r of
             Return ts err r' \<Rightarrow> Return (t # ts) err r'
           | Panic p \<Rightarrow> Panic p
           | OutOfFuel \<Rightarrow> OutOfFuel)
      | Panic p \<Rightarrow> Panic p
      | OutOfFuel \<Rightarrow> OutOfFuel)"
  by (simp add: numeral_eq_Suc)

lemma decode_elems_1 [simp]:
  "decode_elems dec 1 s =
     (case dec s of
        Return t (Some e) r \<Rightarrow> Return [t] (Some e) r
      | Return t None r \<Rightarrow> Return [t] None r
      | Panic p \<Rightarrow> Panic p
      | OutOfFuel \<Rightarrow> OutOfFuel)"
  using decode_elems.simps(2) [of dec 0 s] by (simp split: Outcome.splits option.splits)

lemma Decode_fuel_numeral [simp]:
  "Decode_fuel (numeral k) h c s = Decode_step h c (Decode_fuel (pred_numeral k) h c) s"
  by (simp add: numeral_eq_Suc)

lemmas Decode_eval =
  Decode_def Decode_step_def ruint16_def ruint32_def ReadFull_def buint8_def buint16_def buint32_def
  Decode_ettAtom_def Decode_ettSmallAtom_def Decode_ettSmallInteger_def Decode_ettInteger_def
  Decode_ettPid_def Decode_ettSmallTuple_def Decode_ettLargeTuple_def Decode_tuple_def
  Decode_ettList_def Decode_ettNewFun_def Decode_ettFun_def decode4_def fun_fields_def
  Decode_ettCacheRef_def Decode_ettExport_def Decode_ettPort_def newAtom_def

text \<open>
  C2. What the reader does when a child decode fails. A small tuple of arity 2 whose
  second element has the unknown tag \<open>0\<close>, or is missing: the error of the child is
  returned unchanged, and beside it the tuple with the first element filled and the
  second nil. The list case returns the error and no term. A new-function term whose free
  variable fails returns the function term with that variable nil beside the error; one
  whose module slot fails does not return the error: it panics.
\<close>

theorem Decode_partial_value_with_error:
  "Decode h c [ettSmallTuple, 2, ettSmallInteger, 1, 0]
     = Return (TTuple [TInt 1, TNil]) (Some (ErrUnknownTerm 0)) [] \<and>
   Decode h c [ettSmallTuple, 2, ettSmallInteger, 1]
     = Return (TTuple [TInt 1, TNil]) (Some EOF) [] \<and>
   Decode h c [ettList, 0, 0, 0, 1, ettSmallInteger, 1, 0]
     = Return TNil (Some (ErrUnknownTerm 0)) [] \<and>
   Decode h c ([ettNewFun, 0, 0, 0, 0, 2, 7, 7, 7, 7, 7, 7, 7, 7, 7, 7, 7, 7, 7, 7, 7, 7, 0, 0, 0, 5, 0, 0, 0, 1,
                ettSmallAtom, 1, 109, ettSmallInteger, 3, ettSmallInteger, 4,
                ettPid, ettSmallAtom, 1, 110, 0, 0, 0, 1, 0, 0, 0, 2, 3, 0])
     = Return (TFunction 2 [7, 7, 7, 7, 7, 7, 7, 7, 7, 7, 7, 7, 7, 7, 7, 7] 5 1 [109] 3 4
                 \<lparr>Node = [110], Id = 1, Serial = 2, Creation = 3\<rparr> [TNil])
         (Some (ErrUnknownTerm 0)) [] \<and>
   Decode h c ([ettNewFun, 0, 0, 0, 0, 2, 7, 7, 7, 7, 7, 7, 7, 7, 7, 7, 7, 7, 7, 7, 7, 7, 0, 0, 0, 5, 0, 0, 0, 0,
                0, ettSmallInteger, 3, ettSmallInteger, 4,
                ettPid, ettSmallAtom, 1, 110, 0, 0, 0, 1, 0, 0, 0, 2, 3])
     = Panic TypeAssertion"
  by (simp add: Decode_eval)

text \<open>
  A tuple whose element fails: the error that ended the loop is returned, and with it a
  tuple of the full arity.
\<close>

lemma Decode_small_tuple_error:
  assumes "Decode h c (ettSmallTuple # a # r) = Return t (Some e) r'"
  shows "\<exists>ts. t = TTuple ts \<and> length ts = unat a"
proof -
  from assms obtain ts where
    d: "decode_elems (Decode h c) (unat a) r = Return ts (Some e) r'"
    and t: "t = TTuple (ts @ replicate (unat a - length ts) TNil)"
    by (auto simp: Decode_rec Decode_ettSmallTuple_def Decode_tuple_def split: Outcome.splits)
  from decode_elems_error_length [OF d] have "length ts \<le> unat a" by simp
  with t show ?thesis by simp
qed

text \<open>
  C1. A LIST term of length 1 whose tail is itself a list term, \<open>[2]\<close>: the reader
  returns the one-element list \<open>[1]\<close>; the tail and its element are dropped, as the
  type switch removes any tail of dynamic type \<open>List\<close>, not only nil. And a LIST term
  of length \<open>2^32 - 1\<close>: \<open>n + 1\<close> wraps to \<open>0\<close>, no element is decoded and
  \<open>list[n]\<close> panics.
\<close>

theorem Decode_list_drops_list_tail:
  "Decode h c ([ettList, 0, 0, 0, 1, ettSmallInteger, 1,
                ettList, 0, 0, 0, 1, ettSmallInteger, 2, ettNil] @ rest)
     = Return (TList [TInt 1]) None rest \<and>
   Decode h c ([ettList, 255, 255, 255, 255] @ rest) = Panic IndexOutOfRange"
  by (simp add: Decode_eval)

text \<open>For comparison: a nil tail is removed, and a tail that is not a list is kept.\<close>

lemma Decode_list_examples:
  "Decode h c ([EtVersion, ettList, 0, 0, 0, 2, ettSmallInteger, 1, ettSmallInteger, 2, ettNil] @ rest)
     = Return (TList [TInt 1, TInt 2]) None rest"
  "Decode h c ([ettList, 0, 0, 0, 1, ettSmallInteger, 1, ettSmallInteger, 2] @ rest)
     = Return (TList [TInt 1, TInt 2]) None rest"
  by (simp_all add: Decode_eval)

text \<open>
  A list term in general, when its \<open>n + 1\<close> elements decode: a last element of dynamic
  type \<open>List\<close> is dropped, whatever it holds; any other is kept as the last element.
\<close>

lemma unat_Suc_uint32: "n \<le> 4294967294 \<Longrightarrow> unat (of_nat n + 1 :: uint32) = Suc n"
  by (simp add: unat_word_ariths unat_of_nat)

lemma Decode_list_general:
  assumes "n \<le> 4294967294"
      and "decode_elems (Decode h c) (Suc n) r = Return (elems @ [tail]) None r'"
  shows "Decode h c (ettList # of_nat (drop_bit 24 n) # of_nat (drop_bit 16 n)
                       # of_nat (drop_bit 8 n) # of_nat n # r)
         = Return (TList (case tail of TList xs \<Rightarrow> elems | _ \<Rightarrow> elems @ [tail])) None r'"
proof -
  have len: "length elems = n"
    using decode_elems_length [OF assms(2)] by simp
  have u: "unat (of_nat n :: uint32) = n"
    using assms(1) by (simp add: unat_of_nat)
  show ?thesis
    using assms len u unat_Suc_uint32 [OF assms(1)]
    by (simp add: Decode_rec Decode_ettList_def ruint32_def be_Uint32_of_nat nth_append
          del: be_Uint32.simps decode_elems.simps split: Term.splits)
qed

text \<open>
  C5. An ATOM_CACHE_REF term with index \<open>i\<close>: when the index is outside the current
  cache, or the slot is nil, the reader panics and returns no error; when the slot holds
  a text it returns that atom. In a new context every index is outside the cache.
\<close>

theorem Decode_cache_ref:
  "Decode h c (ettCacheRef # i # rest) =
     (if unat i < length (currentCache c) then
        (case currentCache c ! unat i of
           None \<Rightarrow> Panic NilDereference
         | Some text \<Rightarrow> Return (TAtom text) None rest)
      else Panic IndexOutOfRange) \<and>
   Decode h newContext [ettCacheRef, 0] = Panic IndexOutOfRange \<and>
   Decode h \<lparr>atomCache = replicate 2048 None, currentCache = [None]\<rparr> [ettCacheRef, 0]
     = Panic NilDereference"
  by (simp add: Decode_leaf Decode_ettCacheRef_def ReadFull_def newContext_def)

text \<open>
  C6. A PID term whose node slot holds a small integer, or the atom \<open>true\<close> (which
  decodes to a boolean): after the nine bytes are read the assertion \<open>node.(Atom)\<close>
  panics; no error value is returned.
\<close>

theorem Decode_pid_node_not_atom:
  "Decode h c ([ettPid, ettSmallInteger, 1, 0, 0, 0, 1, 0, 0, 0, 2, 3] @ rest)
     = Panic TypeAssertion \<and>
   Decode h c ([ettPid, ettSmallAtom, 4, 116, 114, 117, 101, 0, 0, 0, 1, 0, 0, 0, 2, 3] @ rest)
     = Panic TypeAssertion"
  by (simp add: Decode_eval)

text \<open>A PID term whose node slot decodes to anything but an atom.\<close>

lemma Decode_pid_general:
  assumes "Decode h c r = Return node None r'" and "9 \<le> length r'" and "\<forall>a. node \<noteq> TAtom a"
  shows "Decode h c (ettPid # r) = Panic TypeAssertion"
  using assms
  by (cases node) (auto simp: Decode_rec Decode_ettPid_def ReadFull_def)

section \<open>The concrete scenarios of the specification\<close>

text \<open>What the writer emits and what the reader returns, on the model.\<close>

lemma scenario_encodings:
  "Encode (VBool True) = ([131, 115, 4, 116, 114, 117, 101], None)"
  "Encode (VInt 300) = ([131, 98, 0, 0, 1, 44], None)"
  "Encode (VInt 42) = ([131, 97, 42], None)"
  "Encode (VFloat 4607182418800017408) = ([131, 70, 63, 240, 0, 0, 0, 0, 0, 0], None)"
  "Encode (VTuple [VAtom [111, 107], VInt 1]) = ([131, 104, 2, 115, 2, 111, 107, 97, 1], None)"
  by (simp_all add: Encode_def writeBool_def writeInt_def writeFloat_def writeAtom_def
      tuple_header_def Write_def Let_def)

lemma scenario_decodings:
  "Decode h c [131, 115, 4, 116, 114, 117, 101] = Return (TBool True) None []"
  "Decode h c [131, 98, 0, 0, 1, 44] = Return (TInt 300) None []"
  "Decode h c [131, 97, 42] = Return (TInt 42) None []"
  "Decode h c [131, 70, 63, 240, 0, 0, 0, 0, 0, 0] = Return (TFloat 4607182418800017408) None []"
  "Decode h c [131, 104, 2, 115, 2, 111, 107, 97, 1]
     = Return (TTuple [TAtom [111, 107], TInt 1]) None []"
  "Decode h c [131, 108, 0, 0, 0, 2, 97, 1, 97, 2, 106] = Return (TList [TInt 1, TInt 2]) None []"
  by (simp_all add: Decode_eval Decode_ettNewFloat_def)

end
